theory Spec2Isabelle
  imports Main "HOL-Library.Word" "HOL-Library.AList"
begin

section \<open>Data model of the hidden-service endpoint\<close>

text \<open>
  Shallow embedding of \<^verbatim>\<open>src/llarp/service/endpoint.cpp\<close>. The header files that declare
  the structs are not part of the source tree at hand, so the field lists below contain
  what \<^verbatim>\<open>endpoint.cpp\<close> reads and writes. Times (\<^verbatim>\<open>llarp_time_t\<close>), transaction ids
  and sequence numbers are unsigned 64-bit integers: subtraction and increment wrap
  around. Identifiers that the code only compares for equality are fixed-width words.
\<close>

type_synonym llarp_time_t = "64 word"
type_synonym RouterID = "256 word"
type_synonym PathID_t = "128 word"
type_synonym Address = "256 word"
type_synonym ConvoTag = "128 word"
type_synonym Tag = "128 word"
type_synonym SharedSecret = "256 word"

record ServiceInfo =
  enckey :: "256 word"
  signkey :: "256 word"

record Introduction =
  router :: RouterID
  pathID :: PathID_t
  expiresAt :: llarp_time_t

text \<open>
  An introset: owner \<open>A\<close>, introductions \<open>I\<close> in list order, receiver key \<open>K\<close>,
  topic and signature \<open>Z\<close>, the fields that \<^verbatim>\<open>endpoint.cpp\<close> names. The field
  \<open>lastSignedAt\<close> is the last-signed timestamp by which, according to the spec, one
  introset is newer than another.
\<close>

record IntroSet =
  A :: ServiceInfo
  I :: "Introduction list"
  K :: "8 word list"
  topic :: Tag
  lastSignedAt :: llarp_time_t
  Z :: "8 word list"

text \<open>The per-tag entry of the session cache; \<^verbatim>\<open>Session{}\<close> is all zeroes.\<close>

record Session =
  remote :: ServiceInfo
  intro :: Introduction
  sharedKey :: SharedSecret
  seqno :: "64 word"
  lastUsed :: llarp_time_t

definition Session_init :: Session where
  "Session_init =
     \<lparr>remote = \<lparr>enckey = 0, signkey = 0\<rparr>,
      intro = \<lparr>router = 0, pathID = 0, expiresAt = 0\<rparr>,
      sharedKey = 0, seqno = 0, lastUsed = 0\<rparr>"

text \<open>
  The functions bound as handlers of a lookup in \<^verbatim>\<open>endpoint.cpp\<close>:
  \<^verbatim>\<open>Endpoint::OnOutboundLookup\<close> (from \<^verbatim>\<open>EnsurePathToService\<close>),
  \<^verbatim>\<open>OutboundContext::OnIntroSetUpdate\<close> of the context for an address (from
  \<^verbatim>\<open>UpdateIntroSet\<close>) and the cached result of a tag (from the tag lookup job).
\<close>

datatype HandlerFunc =
  OnOutboundLookup
| OnIntroSetUpdate Address
| TagResult Tag

text \<open>
  Modelled from the spec: the class \<^verbatim>\<open>IServiceLookup\<close> is declared outside the source
  tree; the spec lists a pending lookup's fields as name, txid, startedAt, timeoutAt and
  handler. The deadline test \<^verbatim>\<open>IsTimedOut\<close> is a parameter of the functions that use
  it, so no deadline is stored here. The address looked up by a
  \<^verbatim>\<open>HiddenServiceAddressLookup\<close> is kept in \<open>lookup_remote\<close>.
\<close>

record IServiceLookup =
  name :: string
  txid :: "64 word"
  startedAt :: llarp_time_t
  lookup_remote :: Address
  handler :: HandlerFunc

text \<open>The DHT messages that \<^verbatim>\<open>endpoint.cpp\<close> wraps into a routing message.\<close>

datatype routing_msg =
  PublishIntroMessage IntroSet "64 word" nat
| FindIntroMessage "64 word" Address nat

text \<open>
  Calls that leave the object at hand are recorded in order: a virtual
  \<^verbatim>\<open>lookup->HandleResponse(results)\<close> with the key under which the lookup was pending, a
  call of a \<^verbatim>\<open>PathEnsureHook\<close> with the address of the context it receives,
  \<^verbatim>\<open>ManualRebuild(n)\<close>, a routing message handed to \<^verbatim>\<open>path->SendRoutingMessage\<close>, and
  the calls \<^verbatim>\<open>m_Parent->EnsureRouterIsKnown(router)\<close> and \<^verbatim>\<open>UpdateIntroSet()\<close> of an
  outbound context.
\<close>

type_synonym PathEnsureHook = nat

datatype event =
  HandleResponse "64 word" IServiceLookup "IntroSet set"
| HookCalled PathEnsureHook Address
| ManualRebuild nat
| PathSendRoutingMessage routing_msg
| EnsureRouterIsKnown RouterID
| UpdateIntroSet

record OutboundContext =
  currentIntroSet :: IntroSet
  selectedIntro :: Introduction
  sequenceNo :: "64 word"
  calls :: "event list"

record Endpoint =
  m_Identity_pub :: ServiceInfo
  m_IntroSet :: IntroSet
  m_Tag :: Tag
  m_CurrentPublishTX :: "64 word"
  m_LastPublish :: llarp_time_t
  m_LastPublishAttempt :: llarp_time_t
  m_PendingLookups :: "(64 word \<times> IServiceLookup) list"
  m_PendingRouters :: "(RouterID \<times> llarp_time_t) list"
  m_PendingServiceLookups :: "(Address \<times> PathEnsureHook) list"
  m_RemoteSessions :: "(Address \<times> OutboundContext) list"
  m_Sessions :: "(ConvoTag \<times> Session) list"
  events :: "event list"

text \<open>
  The constants \<^verbatim>\<open>INTROSET_PUBLISH_INTERVAL\<close> and \<^verbatim>\<open>INTROSET_PUBLISH_RETRY_INTERVAL\<close> are
  macros of a header outside the source tree: they are parameters.
\<close>

record Intervals =
  INTROSET_PUBLISH_INTERVAL :: llarp_time_t
  INTROSET_PUBLISH_RETRY_INTERVAL :: llarp_time_t

text \<open>
  What \<^verbatim>\<open>Endpoint::Tick\<close> obtains from its collaborators during the publish step: the
  result of \<^verbatim>\<open>GetCurrentIntroductions\<close> and the introductions it gathered, the answer
  of \<^verbatim>\<open>ShouldBuildMore\<close>, the outcome of \<^verbatim>\<open>SignIntroSet\<close> (success flag and the
  introset as it leaves the call), whether \<^verbatim>\<open>GetEstablishedPathClosestTo\<close> finds a path,
  the value of \<^verbatim>\<open>llarp_randint\<close>, the result of \<^verbatim>\<open>SendRoutingMessage\<close> and the clock
  \<^verbatim>\<open>llarp_time_now_ms\<close>.
\<close>

record TickEnv =
  got_intros :: bool
  current_intros :: "Introduction list"
  should_build_more :: bool
  sign_introset :: "IntroSet \<Rightarrow> bool \<times> IntroSet"
  publish_path :: bool
  publish_randint :: "64 word"
  publish_send_ok :: bool
  publish_time_now :: llarp_time_t

text \<open>The same for \<^verbatim>\<open>Endpoint::EnsurePathToService\<close>.\<close>

record EnsureEnv =
  has_path :: bool
  randint :: "64 word"
  send_ok :: bool
  lookup_time_now :: llarp_time_t

text \<open>A \<^verbatim>\<open>GotIntroMessage\<close>: transaction id \<^verbatim>\<open>T\<close> and the introsets \<^verbatim>\<open>I\<close>, in order.\<close>

record GotIntroMessage =
  msg_T :: "64 word"
  msg_I :: "IntroSet list"

section \<open>Session cache\<close>

text \<open>
  \<^verbatim>\<open>m_Sessions\<close> is a map from \<^verbatim>\<open>ConvoTag\<close> to \<^verbatim>\<open>Session\<close>; it is kept as an association
  list whose order is the iteration order. \<^verbatim>\<open>find\<close> is \<^const>\<open>map_of\<close>, and
  \<^verbatim>\<open>insert(make_pair(tag, Session{}))\<close> on an absent key adds an entry.
\<close>

definition find_or_insert_session :: "ConvoTag \<Rightarrow> (ConvoTag \<times> Session) list \<Rightarrow> (ConvoTag \<times> Session) list" where
  "find_or_insert_session tag sessions =
     (case map_of sessions tag of
        None \<Rightarrow> sessions @ [(tag, Session_init)]
      | Some _ \<Rightarrow> sessions)"

definition PutSenderFor :: "ConvoTag \<Rightarrow> ServiceInfo \<Rightarrow> llarp_time_t \<Rightarrow> Endpoint \<Rightarrow> Endpoint" where
  "PutSenderFor tag info time_now_ms s =
     (let sessions = find_or_insert_session tag (m_Sessions s)
      in s\<lparr>m_Sessions :=
             AList.map_entry tag (\<lambda>e. e\<lparr>remote := info, lastUsed := time_now_ms\<rparr>) sessions\<rparr>)"

definition GetSenderFor :: "ConvoTag \<Rightarrow> Endpoint \<Rightarrow> ServiceInfo option" where
  "GetSenderFor tag s = map_option remote (map_of (m_Sessions s) tag)"

definition PutIntroFor :: "ConvoTag \<Rightarrow> Introduction \<Rightarrow> llarp_time_t \<Rightarrow> Endpoint \<Rightarrow> Endpoint" where
  "PutIntroFor tag i time_now_ms s =
     (let sessions = find_or_insert_session tag (m_Sessions s)
      in s\<lparr>m_Sessions :=
             AList.map_entry tag (\<lambda>e. e\<lparr>intro := i, lastUsed := time_now_ms\<rparr>) sessions\<rparr>)"

definition GetIntroFor :: "ConvoTag \<Rightarrow> Endpoint \<Rightarrow> Introduction option" where
  "GetIntroFor tag s = map_option intro (map_of (m_Sessions s) tag)"

definition PutCachedSessionKeyFor :: "ConvoTag \<Rightarrow> SharedSecret \<Rightarrow> llarp_time_t \<Rightarrow> Endpoint \<Rightarrow> Endpoint" where
  "PutCachedSessionKeyFor tag k time_now_ms s =
     (let sessions = find_or_insert_session tag (m_Sessions s)
      in s\<lparr>m_Sessions :=
             AList.map_entry tag (\<lambda>e. e\<lparr>sharedKey := k, lastUsed := time_now_ms\<rparr>) sessions\<rparr>)"

definition GetCachedSessionKeyFor :: "ConvoTag \<Rightarrow> Endpoint \<Rightarrow> SharedSecret option" where
  "GetCachedSessionKeyFor tag s = map_option sharedKey (map_of (m_Sessions s) tag)"

text \<open>
  \<^verbatim>\<open>GetSeqNoForConvo\<close>: \<^verbatim>\<open>0\<close> when the tag has no entry, otherwise \<^verbatim>\<open>++seqno\<close> on the
  entry, a 64-bit increment. The result is the returned number and the new state.
\<close>

definition GetSeqNoForConvo :: "ConvoTag \<Rightarrow> Endpoint \<Rightarrow> 64 word \<times> Endpoint" where
  "GetSeqNoForConvo tag s =
     (case map_of (m_Sessions s) tag of
        None \<Rightarrow> (0, s)
      | Some e \<Rightarrow>
          (seqno e + 1,
           s\<lparr>m_Sessions := AList.map_entry tag (\<lambda>e. e\<lparr>seqno := seqno e + 1\<rparr>) (m_Sessions s)\<rparr>))"

section \<open>Iterating the session cache\<close>

text \<open>
  \<^verbatim>\<open>GetConvoTagsForService\<close>: the loop of lines 352 to 358. The iterator \<^verbatim>\<open>itr\<close> is the
  rest of the association list; the body never assigns to it, so every recursive call
  receives the same \<open>itr\<close>. The loop state is the flag \<^verbatim>\<open>inserted\<close> and the set
  \<^verbatim>\<open>tags\<close>; \<^verbatim>\<open>tags.insert(x).second\<close> is true when \<^verbatim>\<open>x\<close> was not in the set. A run that
  never leaves the loop is the value \<open>None\<close>.
\<close>

partial_function (option) GetConvoTagsForService_loop ::
    "ServiceInfo \<Rightarrow> (ConvoTag \<times> Session) list \<Rightarrow> bool \<times> ConvoTag set \<Rightarrow> (bool \<times> ConvoTag set) option" where
  "GetConvoTagsForService_loop info itr st =
     (case itr of
        [] \<Rightarrow> Some st
      | e # rest \<Rightarrow>
          (if remote (snd e) = info
           then GetConvoTagsForService_loop info itr
                  (fst st \<or> fst e \<notin> snd st, insert (fst e) (snd st))
           else GetConvoTagsForService_loop info itr st))"

definition GetConvoTagsForService ::
    "ServiceInfo \<Rightarrow> ConvoTag set \<Rightarrow> Endpoint \<Rightarrow> (bool \<times> ConvoTag set) option" where
  "GetConvoTagsForService info tags s =
     GetConvoTagsForService_loop info (m_Sessions s) (False, tags)"

section \<open>Publishing the introset\<close>

text \<open>
  Modelled from the spec: \<^verbatim>\<open>IntroSet::HasExpiredIntros\<close> is defined outside the source
  tree. The spec: an introduction is expired when \<^verbatim>\<open>now \<ge> expiresAt\<close>, and an introset
  has expired intros if any of its introductions is expired.
\<close>

definition HasExpiredIntros :: "IntroSet \<Rightarrow> llarp_time_t \<Rightarrow> bool" where
  "HasExpiredIntros introset now = list_ex (\<lambda>i. expiresAt i \<le> now) (I introset)"

definition ShouldPublishDescriptors :: "Intervals \<Rightarrow> llarp_time_t \<Rightarrow> Endpoint \<Rightarrow> bool" where
  "ShouldPublishDescriptors c now s =
     (if HasExpiredIntros (m_IntroSet s) now
      then m_CurrentPublishTX s = 0
         \<and> INTROSET_PUBLISH_RETRY_INTERVAL c \<le> now - m_LastPublishAttempt s
      else m_CurrentPublishTX s = 0
         \<and> INTROSET_PUBLISH_INTERVAL c \<le> now - m_LastPublish s)"

definition IntroSetPublishFail :: "Endpoint \<Rightarrow> Endpoint" where
  "IntroSetPublishFail s = s\<lparr>m_CurrentPublishTX := 0\<rparr>"

definition IntroSetPublished :: "llarp_time_t \<Rightarrow> Endpoint \<Rightarrow> Endpoint" where
  "IntroSetPublished time_now_ms s = s\<lparr>m_CurrentPublishTX := 0, m_LastPublish := time_now_ms\<rparr>"

text \<open>
  \<^verbatim>\<open>PublishIntroSet\<close>: with a path, the transaction id is drawn and the message handed to
  the path; the attempt time is recorded only when the send succeeds.
\<close>

definition PublishIntroSet :: "TickEnv \<Rightarrow> Endpoint \<Rightarrow> bool \<times> Endpoint" where
  "PublishIntroSet env s =
     (if publish_path env
      then (let s1 = s\<lparr>m_CurrentPublishTX := publish_randint env\<rparr>;
                s2 = s1\<lparr>events := events s1 @
                        [PathSendRoutingMessage
                           (PublishIntroMessage (m_IntroSet s1) (m_CurrentPublishTX s1) 4)]\<rparr>
            in if publish_send_ok env
               then (True, s2\<lparr>m_LastPublishAttempt := publish_time_now env\<rparr>)
               else (False, s2))
      else (False, s))"

section \<open>Handling a GotIntroMessage\<close>

text \<open>
  The loop over \<^verbatim>\<open>msg->I\<close> (lines 264 to 288). \<open>Inl\<close> is a \<^verbatim>\<open>return\<close> from inside the
  loop with the returned flag and the state; \<open>Inr\<close> is the set \<^verbatim>\<open>remote\<close> when the loop
  runs to its end. \<open>verify\<close> stands for \<^verbatim>\<open>introset.VerifySignature(crypto)\<close> and
  \<open>time_now_ms\<close> for the clock read by \<^verbatim>\<open>IntroSetPublished\<close>.
\<close>

fun HandleGotIntroMessage_loop ::
    "(IntroSet \<Rightarrow> bool) \<Rightarrow> llarp_time_t \<Rightarrow> 64 word \<Rightarrow> IntroSet list \<Rightarrow> IntroSet set \<Rightarrow> Endpoint
       \<Rightarrow> (bool \<times> Endpoint) + IntroSet set" where
  "HandleGotIntroMessage_loop verify time_now_ms t [] remote_set s = Inr remote_set"
| "HandleGotIntroMessage_loop verify time_now_ms t (introset # rest) remote_set s =
     (if \<not> verify introset
      then (if m_Identity_pub s = A introset \<and> m_CurrentPublishTX s = t
            then Inl (False, IntroSetPublishFail s)
            else Inl (False, s))
      else if m_Identity_pub s = A introset \<and> m_CurrentPublishTX s = t
      then Inl (True, IntroSetPublished time_now_ms s)
      else HandleGotIntroMessage_loop verify time_now_ms t rest (insert introset remote_set) s)"

definition HandleGotIntroMessage ::
    "(IntroSet \<Rightarrow> bool) \<Rightarrow> llarp_time_t \<Rightarrow> GotIntroMessage \<Rightarrow> Endpoint \<Rightarrow> bool \<times> Endpoint" where
  "HandleGotIntroMessage verify time_now_ms msg s =
     (case HandleGotIntroMessage_loop verify time_now_ms (msg_T msg) (msg_I msg) {} s of
        Inl r \<Rightarrow> r
      | Inr remote_set \<Rightarrow>
          (case map_of (m_PendingLookups s) (msg_T msg) of
             None \<Rightarrow> (True, s)
           | Some lookup \<Rightarrow>
               (True, s\<lparr>m_PendingLookups := AList.delete (msg_T msg) (m_PendingLookups s),
                        events := events s @ [HandleResponse (msg_T msg) lookup remote_set]\<rparr>)))"

section \<open>The periodic tick of the endpoint\<close>

text \<open>
  The publish step of \<^verbatim>\<open>Endpoint::Tick\<close> (lines 95 to 127). The flag of the result is
  \<open>False\<close> when the step leaves \<^verbatim>\<open>Tick\<close> through one of its two \<^verbatim>\<open>return\<close> statements
  and \<open>True\<close> when control reaches the next step.
\<close>

definition Tick_publish :: "Intervals \<Rightarrow> TickEnv \<Rightarrow> llarp_time_t \<Rightarrow> Endpoint \<Rightarrow> bool \<times> Endpoint" where
  "Tick_publish c env now s0 =
     (let s = (if INTROSET_PUBLISH_RETRY_INTERVAL c \<le> now - m_LastPublishAttempt s0
               then s0\<lparr>m_CurrentPublishTX := 0\<rparr> else s0)
      in if ShouldPublishDescriptors c now s
         then (if \<not> got_intros env
               then (False, if should_build_more env
                            then s\<lparr>events := events s @ [ManualRebuild 1]\<rparr> else s)
               else (let s1 = s\<lparr>m_IntroSet :=
                                  (m_IntroSet s)\<lparr>I := current_intros env, topic := m_Tag s\<rparr>\<rparr>;
                         signed = sign_introset env (m_IntroSet s1);
                         s2 = s1\<lparr>m_IntroSet := snd signed\<rparr>
                     in if \<not> fst signed then (False, s2)
                        else (True, snd (PublishIntroSet env s2))))
         else (True, s))"

text \<open>
  Expiry of the pending lookups (lines 128 to 145). \<^verbatim>\<open>m_PendingLookups\<close> is an association
  list in iteration order; the iterator is the rest of the list. A timed-out lookup is
  handed the empty set and erased, any other is kept. \<open>IsTimedOut\<close> stands for the
  method of the same name.
\<close>

fun expire_pending_lookups ::
    "(IServiceLookup \<Rightarrow> llarp_time_t \<Rightarrow> bool) \<Rightarrow> llarp_time_t \<Rightarrow> (64 word \<times> IServiceLookup) list
       \<Rightarrow> event list \<Rightarrow> (64 word \<times> IServiceLookup) list \<times> event list" where
  "expire_pending_lookups IsTimedOut now [] evs = ([], evs)"
| "expire_pending_lookups IsTimedOut now (itr # rest) evs =
     (if IsTimedOut (snd itr) now
      then expire_pending_lookups IsTimedOut now rest
             (evs @ [HandleResponse (fst itr) (snd itr) {}])
      else (case expire_pending_lookups IsTimedOut now rest evs of
              (kept, evs') \<Rightarrow> (itr # kept, evs')))"

definition Tick_expire_lookups ::
    "(IServiceLookup \<Rightarrow> llarp_time_t \<Rightarrow> bool) \<Rightarrow> llarp_time_t \<Rightarrow> Endpoint \<Rightarrow> Endpoint" where
  "Tick_expire_lookups IsTimedOut now s =
     (case expire_pending_lookups IsTimedOut now (m_PendingLookups s) (events s) of
        (kept, evs) \<Rightarrow> s\<lparr>m_PendingLookups := kept, events := evs\<rparr>)"

text \<open>
  Expiry of the pending router lookups (lines 147 to 160); a job is kept as its start
  time and \<open>IsExpired\<close> stands for \<^verbatim>\<open>RouterLookupJob::IsExpired\<close>.
\<close>

definition Tick_expire_routers ::
    "(llarp_time_t \<Rightarrow> llarp_time_t \<Rightarrow> bool) \<Rightarrow> llarp_time_t \<Rightarrow> Endpoint \<Rightarrow> Endpoint" where
  "Tick_expire_routers IsExpired now s =
     s\<lparr>m_PendingRouters := filter (\<lambda>itr. \<not> IsExpired (snd itr) now) (m_PendingRouters s)\<rparr>"

text \<open>
  \<^verbatim>\<open>Endpoint::Tick\<close> from its entry up to the end of the two expiry blocks (lines 93 to
  160). When the publish step returns, \<^verbatim>\<open>Tick\<close> is over and the flag is \<open>False\<close>.
  Otherwise the flag is \<open>True\<close> and the state is the one with which \<^verbatim>\<open>Tick\<close> enters its
  prefetch steps and the ticking of the remote sessions (lines 162 to 229), which run
  code of the path set and of the lookup jobs that is outside the source tree and are
  not part of this function.
\<close>

definition Tick_through_expiry ::
    "Intervals \<Rightarrow> TickEnv \<Rightarrow> (IServiceLookup \<Rightarrow> llarp_time_t \<Rightarrow> bool)
       \<Rightarrow> (llarp_time_t \<Rightarrow> llarp_time_t \<Rightarrow> bool) \<Rightarrow> llarp_time_t \<Rightarrow> Endpoint \<Rightarrow> bool \<times> Endpoint" where
  "Tick_through_expiry c env IsTimedOut IsExpired now s =
     (let published = Tick_publish c env now s
      in if \<not> fst published then (False, snd published)
         else (True, Tick_expire_routers IsExpired now
                       (Tick_expire_lookups IsTimedOut now (snd published))))"

text \<open>
  The results that the handlers of the lookup pending under key \<open>k\<close> received, in the
  order of the calls recorded in an event list.
\<close>

fun responses_to :: "64 word \<Rightarrow> event list \<Rightarrow> IntroSet set list" where
  "responses_to k [] = []"
| "responses_to k (HandleResponse k' l r # evs) =
     (if k' = k then r # responses_to k evs else responses_to k evs)"
| "responses_to k (e # evs) = responses_to k evs"

section \<open>Ensuring a path to a service\<close>

text \<open>
  \<^verbatim>\<open>GenTXID\<close>: starting from a random number, \<^verbatim>\<open>++txid\<close> (64-bit) while the number is a
  key of \<^verbatim>\<open>m_PendingLookups\<close>.
\<close>

partial_function (option) GenTXID_loop ::
    "(64 word \<times> IServiceLookup) list \<Rightarrow> 64 word \<Rightarrow> 64 word option" where
  "GenTXID_loop pending t =
     (if map_of pending t \<noteq> None then GenTXID_loop pending (t + 1) else Some t)"

definition GenTXID :: "64 word \<Rightarrow> Endpoint \<Rightarrow> 64 word option" where
  "GenTXID llarp_randint s = GenTXID_loop (m_PendingLookups s) llarp_randint"

text \<open>
  \<^verbatim>\<open>PutLookup\<close>: \<^verbatim>\<open>insert\<close> on a map leaves an existing key as it is. A new entry
  takes its place in the order of the keys, in which the map is iterated.
\<close>

definition PutLookup :: "IServiceLookup \<Rightarrow> 64 word \<Rightarrow> Endpoint \<Rightarrow> Endpoint" where
  "PutLookup lookup t s =
     (case map_of (m_PendingLookups s) t of
        None \<Rightarrow> s\<lparr>m_PendingLookups := insort_key fst (t, lookup) (m_PendingLookups s)\<rparr>
      | Some _ \<Rightarrow> s)"

definition HasPendingPathToService :: "Address \<Rightarrow> Endpoint \<Rightarrow> bool" where
  "HasPendingPathToService addr s = (map_of (m_PendingServiceLookups s) addr \<noteq> None)"

definition HasPathToService :: "Address \<Rightarrow> Endpoint \<Rightarrow> bool" where
  "HasPathToService addr s = (map_of (m_RemoteSessions s) addr \<noteq> None)"

text \<open>
  Modelled from the spec: the constructor of \<^verbatim>\<open>IServiceLookup\<close> is outside the source
  tree. Per the spec a pending lookup has a name, a txid and a start time and is created
  by \<^verbatim>\<open>PutLookup\<close>; the new job is entered into the table of its parent under its txid.
\<close>

definition IServiceLookup_new ::
    "string \<Rightarrow> 64 word \<Rightarrow> llarp_time_t \<Rightarrow> Address \<Rightarrow> HandlerFunc \<Rightarrow> Endpoint
       \<Rightarrow> IServiceLookup \<times> Endpoint" where
  "IServiceLookup_new n t time_now_ms addr h parent =
     (let job = \<lparr>name = n, txid = t, startedAt = time_now_ms, lookup_remote = addr,
                 handler = h\<rparr>
      in (job, PutLookup job t parent))"

text \<open>
  \<^verbatim>\<open>HiddenServiceAddressLookup::BuildRequestMessage\<close> (lines 540 to 549): a
  \<^verbatim>\<open>FindIntroMessage\<close> for the txid and the address, with \<^verbatim>\<open>R = 5\<close>.
\<close>

definition BuildRequestMessage :: "IServiceLookup \<Rightarrow> routing_msg" where
  "BuildRequestMessage job = FindIntroMessage (txid job) (lookup_remote job) 5"

text \<open>
  Modelled from the spec: \<^verbatim>\<open>IServiceLookup::SendRequestViaPath\<close> is outside the source
  tree. Per the spec the lookup is sent over the chosen path: the request message of
  the job is handed to the path, and the result is that of the send, here \<open>ok\<close>.
\<close>

definition SendRequestViaPath :: "IServiceLookup \<Rightarrow> bool \<Rightarrow> Endpoint \<Rightarrow> bool \<times> Endpoint" where
  "SendRequestViaPath job ok s =
     (ok, s\<lparr>events := events s @ [PathSendRoutingMessage (BuildRequestMessage job)]\<rparr>)"

text \<open>
  \<^verbatim>\<open>EnsurePathToService\<close> (lines 673 to 712). The result is \<open>None\<close> when \<^verbatim>\<open>GenTXID\<close>
  does not return. The parameter \<^verbatim>\<open>timeoutMS\<close> is not read by the body.
\<close>

definition EnsurePathToService ::
    "EnsureEnv \<Rightarrow> Address \<Rightarrow> PathEnsureHook \<Rightarrow> llarp_time_t \<Rightarrow> Endpoint \<Rightarrow> (bool \<times> Endpoint) option" where
  "EnsurePathToService env remote_addr hook timeoutMS s =
     (if \<not> has_path env then Some (False, s)
      else case map_of (m_RemoteSessions s) remote_addr of
        Some ctx \<Rightarrow> Some (True, s\<lparr>events := events s @ [HookCalled hook remote_addr]\<rparr>)
      | None \<Rightarrow>
          (case map_of (m_PendingServiceLookups s) remote_addr of
             Some _ \<Rightarrow> Some (False, s)
           | None \<Rightarrow>
               (let s1 = s\<lparr>m_PendingServiceLookups :=
                              m_PendingServiceLookups s @ [(remote_addr, hook)]\<rparr>
                in case GenTXID (randint env) s1 of
                     None \<Rightarrow> None
                   | Some t \<Rightarrow>
                       (let created = IServiceLookup_new ''HSLookup'' t (lookup_time_now env)
                                        remote_addr OnOutboundLookup s1
                        in Some (SendRequestViaPath (fst created) (send_ok env)
                                   (snd created))))))"

section \<open>Outbound contexts\<close>

text \<open>
  \<^verbatim>\<open>ShiftIntroduction\<close>: the loop over \<^verbatim>\<open>currentIntroSet.I\<close> and the final
  \<^verbatim>\<open>ManualRebuild(2)\<close>.
\<close>

fun ShiftIntroduction_loop :: "Introduction list \<Rightarrow> OutboundContext \<Rightarrow> OutboundContext" where
  "ShiftIntroduction_loop [] c = c"
| "ShiftIntroduction_loop (i # rest) c =
     (let c1 = c\<lparr>calls := calls c @ [EnsureRouterIsKnown (router (selectedIntro c))]\<rparr>;
          c2 = (if expiresAt (selectedIntro c1) < expiresAt i
                then c1\<lparr>selectedIntro := i\<rparr> else c1)
      in ShiftIntroduction_loop rest c2)"

definition ShiftIntroduction :: "OutboundContext \<Rightarrow> OutboundContext" where
  "ShiftIntroduction c =
     (let c1 = ShiftIntroduction_loop (I (currentIntroSet c)) c
      in c1\<lparr>calls := calls c1 @ [ManualRebuild 2]\<rparr>)"

text \<open>
  The constructor (lines 714 to 724): the introset is stored, the selection cleared and
  then shifted. \<^verbatim>\<open>Introduction::Clear\<close> is declared outside the source tree; the value it
  leaves in \<^verbatim>\<open>selectedIntro\<close> is the parameter \<open>cleared\<close>.
\<close>

definition OutboundContext_new :: "Introduction \<Rightarrow> IntroSet \<Rightarrow> OutboundContext" where
  "OutboundContext_new cleared introset =
     ShiftIntroduction
       \<lparr>currentIntroSet = introset, selectedIntro = cleared, sequenceNo = 0, calls = []\<rparr>"

text \<open>
  Modelled from the spec: \<^verbatim>\<open>IntroSet::IsNewerThan\<close> is defined outside the source tree.
  Per the spec an update is accepted only if
  \<^verbatim>\<open>newer.lastSignedAt > current.lastSignedAt\<close>.
\<close>

definition IsNewerThan :: "IntroSet \<Rightarrow> IntroSet \<Rightarrow> bool" where
  "IsNewerThan this other = (lastSignedAt other < lastSignedAt this)"

text \<open>\<^verbatim>\<open>OnIntroSetUpdate\<close>; a null pointer is \<open>None\<close>.\<close>

definition OnIntroSetUpdate :: "IntroSet option \<Rightarrow> OutboundContext \<Rightarrow> bool \<times> OutboundContext" where
  "OnIntroSetUpdate i c =
     (case i of
        None \<Rightarrow> (True, c)
      | Some introset \<Rightarrow>
          (if IsNewerThan introset (currentIntroSet c)
           then (True, c\<lparr>currentIntroSet := introset\<rparr>)
           else (True, c)))"

text \<open>
  The two calls that change the selection or the introset of a context after its
  construction, and a sequence of them applied in order.
\<close>

datatype ctx_call = CallShiftIntroduction | CallOnIntroSetUpdate "IntroSet option"

fun apply_call :: "ctx_call \<Rightarrow> OutboundContext \<Rightarrow> OutboundContext" where
  "apply_call CallShiftIntroduction c = ShiftIntroduction c"
| "apply_call (CallOnIntroSetUpdate u) c = snd (OnIntroSetUpdate u c)"

fun apply_calls :: "ctx_call list \<Rightarrow> OutboundContext \<Rightarrow> OutboundContext" where
  "apply_calls [] c = c"
| "apply_calls (k # ks) c = apply_calls ks (apply_call k c)"

text \<open>
  A call retains the selection when it is not an update that replaces the introset by
  one without the selected introduction; a sequence does when each of its calls does
  in the state it is made in.
\<close>

fun retains_selection :: "ctx_call \<Rightarrow> OutboundContext \<Rightarrow> bool" where
  "retains_selection CallShiftIntroduction c = True"
| "retains_selection (CallOnIntroSetUpdate None) c = True"
| "retains_selection (CallOnIntroSetUpdate (Some i)) c =
     (if IsNewerThan i (currentIntroSet c) then selectedIntro c \<in> set (I i) else True)"

fun retaining_calls :: "ctx_call list \<Rightarrow> OutboundContext \<Rightarrow> bool" where
  "retaining_calls [] c = True"
| "retaining_calls (k # ks) c = (retains_selection k c \<and> retaining_calls ks (apply_call k c))"

text \<open>The selected introduction is one of the current introset.\<close>

definition selection_aligned :: "OutboundContext \<Rightarrow> bool" where
  "selection_aligned c = (selectedIntro c \<in> set (I (currentIntroSet c)))"

text \<open>
  \<^verbatim>\<open>OutboundContext::Tick\<close> (lines 928 to 939); the subtraction is that of unsigned
  64-bit integers.
\<close>

definition OutboundContext_Tick :: "llarp_time_t \<Rightarrow> OutboundContext \<Rightarrow> bool \<times> OutboundContext" where
  "OutboundContext_Tick now c =
     (let c1 = (if now \<le> expiresAt (selectedIntro c)
                   \<or> expiresAt (selectedIntro c) - now < 30000
                then c\<lparr>calls := calls c @ [UpdateIntroSet]\<rparr> else c);
          c2 = c1\<lparr>calls := calls c1 @ [EnsureRouterIsKnown (router (selectedIntro c1))]\<rparr>
      in (False, c2))"

section \<open>Concrete states\<close>

text \<open>Values at which the functions above are evaluated further down.\<close>

definition self_info :: ServiceInfo where
  "self_info = \<lparr>enckey = 1, signkey = 2\<rparr>"

definition other_info :: ServiceInfo where
  "other_info = \<lparr>enckey = 3, signkey = 4\<rparr>"

definition intro_at :: "RouterID \<Rightarrow> llarp_time_t \<Rightarrow> Introduction" where
  "intro_at r t = \<lparr>router = r, pathID = 9, expiresAt = t\<rparr>"

definition introset_of :: "ServiceInfo \<Rightarrow> Introduction list \<Rightarrow> llarp_time_t \<Rightarrow> IntroSet" where
  "introset_of a is t = \<lparr>A = a, I = is, K = [], topic = 0, lastSignedAt = t, Z = []\<rparr>"

definition endpoint0 :: Endpoint where
  "endpoint0 =
     \<lparr>m_Identity_pub = self_info, m_IntroSet = introset_of self_info [] 0, m_Tag = 0,
      m_CurrentPublishTX = 0, m_LastPublish = 0, m_LastPublishAttempt = 0,
      m_PendingLookups = [], m_PendingRouters = [], m_PendingServiceLookups = [],
      m_RemoteSessions = [], m_Sessions = [], events = []\<rparr>"

definition intervals0 :: Intervals where
  "intervals0 = \<lparr>INTROSET_PUBLISH_INTERVAL = 1800000, INTROSET_PUBLISH_RETRY_INTERVAL = 60000\<rparr>"

text \<open>
  An outbound context whose only introduction, the selected one, expires at 101000.
\<close>

definition ctx_far :: OutboundContext where
  "ctx_far =
     \<lparr>currentIntroSet = introset_of other_info [intro_at 7 101000] 50,
      selectedIntro = intro_at 7 101000, sequenceNo = 0, calls = []\<rparr>"

text \<open>The introduction with all fields zero.\<close>

definition zero_intro :: Introduction where
  "zero_intro = \<lparr>router = 0, pathID = 0, expiresAt = 0\<rparr>"

text \<open>
  A context built from an introset signed at 1, then given an introset signed at 2
  whose only introduction expires earlier, then shifted.
\<close>

definition stale_ctx :: "Introduction \<Rightarrow> OutboundContext" where
  "stale_ctx cleared =
     ShiftIntroduction
       (snd (OnIntroSetUpdate (Some (introset_of other_info [intro_at 8 5] 2))
               (OutboundContext_new cleared (introset_of other_info [intro_at 7 10] 1))))"

text \<open>
  A shift, a rejected update, a null update, an accepted update whose introset still
  holds the introduction expiring at 101000, and another shift.
\<close>

definition refresh_calls :: "ctx_call list" where
  "refresh_calls =
     [CallShiftIntroduction,
      CallOnIntroSetUpdate (Some (introset_of other_info [intro_at 8 5] 49)),
      CallOnIntroSetUpdate None,
      CallOnIntroSetUpdate (Some (introset_of other_info [intro_at 8 5, intro_at 7 101000] 60)),
      CallShiftIntroduction]"

text \<open>A signature check that accepts exactly the signature \<open>[1]\<close>.\<close>

definition sig_ok :: "IntroSet \<Rightarrow> bool" where
  "sig_ok introset = (Z introset = [1])"

definition signed_introset :: "ServiceInfo \<Rightarrow> 8 word list \<Rightarrow> IntroSet" where
  "signed_introset a z =
     \<lparr>A = a, I = [intro_at 7 5000], K = [], topic = 0, lastSignedAt = 100, Z = z\<rparr>"

text \<open>An endpoint with a publish in flight under transaction id 5.\<close>

definition publishing_endpoint :: Endpoint where
  "publishing_endpoint = endpoint0\<lparr>m_CurrentPublishTX := 5, m_LastPublishAttempt := 3000\<rparr>"

text \<open>Deadline tests that fire five seconds after the start of a job.\<close>

definition timed_out_after_5s :: "IServiceLookup \<Rightarrow> llarp_time_t \<Rightarrow> bool" where
  "timed_out_after_5s lookup now = (5000 < now - startedAt lookup)"

definition router_expired_after_5s :: "llarp_time_t \<Rightarrow> llarp_time_t \<Rightarrow> bool" where
  "router_expired_after_5s started now = (5000 < now - started)"

definition lookup_started :: "64 word \<Rightarrow> llarp_time_t \<Rightarrow> IServiceLookup" where
  "lookup_started t tm =
     \<lparr>name = ''HSLookup'', txid = t, startedAt = tm, lookup_remote = 11,
      handler = OnOutboundLookup\<rparr>"

text \<open>An environment in which no introduction can be gathered.\<close>

definition no_intros_env :: TickEnv where
  "no_intros_env =
     \<lparr>got_intros = False, current_intros = [], should_build_more = True,
      sign_introset = (\<lambda>i. (True, i)), publish_path = True, publish_randint = 42,
      publish_send_ok = True, publish_time_now = 2000000\<rparr>"

text \<open>An endpoint with two pending lookups, started at 1000 and at 1999000.\<close>

definition waiting_endpoint :: Endpoint where
  "waiting_endpoint =
     endpoint0\<lparr>m_PendingLookups :=
                 [(5, lookup_started 5 1000), (6, lookup_started 6 1999000)]\<rparr>"

definition env0 :: EnsureEnv where
  "env0 = \<lparr>has_path = True, randint = 77, send_ok = True, lookup_time_now = 1000\<rparr>"

text \<open>An endpoint with one session, under tag 21, whose counter is \<open>n\<close>.\<close>

definition session_at :: "64 word \<Rightarrow> Session" where
  "session_at n = Session_init\<lparr>remote := other_info, seqno := n\<rparr>"

definition talking_endpoint :: "64 word \<Rightarrow> Endpoint" where
  "talking_endpoint n = endpoint0\<lparr>m_Sessions := [(21, session_at n)]\<rparr>"


section \<open>Session cache: sequence numbers\<close>

lemma word64_less_succ:
  assumes "(x::64 word) \<noteq> - 1"
  shows "x < x + 1"
proof -
  have "1 + x \<noteq> 0"
  proof
    assume "1 + x = 0"
    then have "x + 1 = 0" by (simp add: add.commute)
    then have "x = - 1" by (rule max_word_wrap)
    with assms show False by simp
  qed
  then have "unat (1 + x) = Suc (unat x)" by (rule unatSuc)
  then show ?thesis by (simp add: word_less_nat_alt add.commute)
qed

lemma find_or_insert_absent:
  "map_of sessions tag = None \<Longrightarrow>
   map_of (find_or_insert_session tag sessions) tag = Some Session_init"
  by (simp add: find_or_insert_session_def map_add_def)

lemma GetSeqNoForConvo_present:
  "map_of (m_Sessions s) tag = Some e \<Longrightarrow>
   GetSeqNoForConvo tag s =
     (seqno e + 1,
      s\<lparr>m_Sessions := AList.map_entry tag (\<lambda>e. e\<lparr>seqno := seqno e + 1\<rparr>) (m_Sessions s)\<rparr>)"
  by (simp add: GetSeqNoForConvo_def)

lemma GetSeqNoForConvo_entry_after:
  "map_of (m_Sessions s) tag = Some e \<Longrightarrow>
   map_of (m_Sessions (snd (GetSeqNoForConvo tag s))) tag = Some (e\<lparr>seqno := seqno e + 1\<rparr>)"
  by (simp add: GetSeqNoForConvo_present map_of_map_entry)

lemma GetSeqNoForConvo_successive:
  assumes "map_of (m_Sessions s) tag = Some e"
    and "fst (GetSeqNoForConvo tag s) \<noteq> - 1"
  shows "fst (GetSeqNoForConvo tag s)
           < fst (GetSeqNoForConvo tag (snd (GetSeqNoForConvo tag s)))"
proof -
  have r1: "fst (GetSeqNoForConvo tag s) = seqno e + 1"
    using assms(1) by (simp add: GetSeqNoForConvo_present)
  have "fst (GetSeqNoForConvo tag (snd (GetSeqNoForConvo tag s)))
          = seqno (e\<lparr>seqno := seqno e + 1\<rparr>) + 1"
    using GetSeqNoForConvo_entry_after [OF assms(1)] by (simp add: GetSeqNoForConvo_present)
  then have r2: "fst (GetSeqNoForConvo tag (snd (GetSeqNoForConvo tag s))) = (seqno e + 1) + 1"
    by simp
  from assms(2) r1 have "seqno e + 1 \<noteq> - 1" by simp
  then have "seqno e + 1 < (seqno e + 1) + 1" by (rule word64_less_succ)
  with r1 r2 show ?thesis by simp
qed

text \<open>
  The other operations of the cache leave the counter of an existing entry alone, so
  only \<^verbatim>\<open>GetSeqNoForConvo\<close> on the same tag moves it.
\<close>

lemma PutSenderFor_keeps_seqno:
  "map_of (m_Sessions s) tag = Some e \<Longrightarrow>
   map_option seqno (map_of (m_Sessions (PutSenderFor tag' info tm s)) tag) = Some (seqno e)"
  by (cases "map_of (m_Sessions s) tag'")
     (auto simp: PutSenderFor_def find_or_insert_session_def map_of_map_entry map_add_def)

lemma GetSeqNoForConvo_other_tag:
  "tag' \<noteq> tag \<Longrightarrow>
   map_of (m_Sessions (snd (GetSeqNoForConvo tag' s))) tag = map_of (m_Sessions s) tag"
  by (cases "map_of (m_Sessions s) tag'") (simp_all add: GetSeqNoForConvo_def map_of_map_entry)

lemma unat_succ64: "unat ((x::64 word) + 1) = (unat x + 1) mod 2 ^ 64"
  by (simp add: unat_word_ariths)

text \<open>
  Claim C9, as the code has it. For a tag with a session entry, a call of
  \<^verbatim>\<open>GetSeqNoForConvo\<close> returns the stored counter plus one modulo \<open>2^64\<close> and stores
  it in the entry, so the next call on the same tag returns that value plus one: a
  strictly greater value when the earlier call did not return \<open>2^64 - 1\<close>, and 0
  when it did. The first call after any of the three \<^verbatim>\<open>Put...For\<close> operations has
  created the entry returns 1.
\<close>

theorem GetSeqNoForConvo_increasing:
  "(map_of (m_Sessions s) tag = Some e \<longrightarrow>
      GetSeqNoForConvo tag s =
        (seqno e + 1,
         s\<lparr>m_Sessions :=
             AList.map_entry tag (\<lambda>e. e\<lparr>seqno := seqno e + 1\<rparr>) (m_Sessions s)\<rparr>)
    \<and> unat (fst (GetSeqNoForConvo tag s)) = (unat (seqno e) + 1) mod 2 ^ 64
    \<and> map_of (m_Sessions (snd (GetSeqNoForConvo tag s))) tag = Some (e\<lparr>seqno := seqno e + 1\<rparr>)
    \<and> fst (GetSeqNoForConvo tag (snd (GetSeqNoForConvo tag s))) = seqno e + 1 + 1
    \<and> (fst (GetSeqNoForConvo tag s) \<noteq> - 1 \<longrightarrow>
         fst (GetSeqNoForConvo tag s)
           < fst (GetSeqNoForConvo tag (snd (GetSeqNoForConvo tag s))))
    \<and> (fst (GetSeqNoForConvo tag s) = - 1 \<longrightarrow>
         fst (GetSeqNoForConvo tag (snd (GetSeqNoForConvo tag s))) = 0))
   \<and> (map_of (m_Sessions s) tag = None \<longrightarrow>
        fst (GetSeqNoForConvo tag (PutSenderFor tag info tm s)) = 1
      \<and> fst (GetSeqNoForConvo tag (PutIntroFor tag i tm s)) = 1
      \<and> fst (GetSeqNoForConvo tag (PutCachedSessionKeyFor tag k tm s)) = 1)"
proof (intro conjI impI)
  assume present: "map_of (m_Sessions s) tag = Some e"
  show call: "GetSeqNoForConvo tag s =
        (seqno e + 1,
         s\<lparr>m_Sessions :=
             AList.map_entry tag (\<lambda>e. e\<lparr>seqno := seqno e + 1\<rparr>) (m_Sessions s)\<rparr>)"
    using present by (rule GetSeqNoForConvo_present)
  show "unat (fst (GetSeqNoForConvo tag s)) = (unat (seqno e) + 1) mod 2 ^ 64"
    by (simp add: call unat_succ64)
  show after: "map_of (m_Sessions (snd (GetSeqNoForConvo tag s))) tag
                 = Some (e\<lparr>seqno := seqno e + 1\<rparr>)"
    using present by (rule GetSeqNoForConvo_entry_after)
  show second: "fst (GetSeqNoForConvo tag (snd (GetSeqNoForConvo tag s))) = seqno e + 1 + 1"
    using GetSeqNoForConvo_present [OF after] by simp
  show "fst (GetSeqNoForConvo tag s)
           < fst (GetSeqNoForConvo tag (snd (GetSeqNoForConvo tag s)))"
    if "fst (GetSeqNoForConvo tag s) \<noteq> - 1"
    using present that by (rule GetSeqNoForConvo_successive)
  show "fst (GetSeqNoForConvo tag (snd (GetSeqNoForConvo tag s))) = 0"
    if "fst (GetSeqNoForConvo tag s) = - 1"
    using that second call by simp
next
  assume "map_of (m_Sessions s) tag = None"
  then show "fst (GetSeqNoForConvo tag (PutSenderFor tag info tm s)) = 1"
    by (simp add: GetSeqNoForConvo_def PutSenderFor_def find_or_insert_absent
                  map_of_map_entry Session_init_def)
next
  assume "map_of (m_Sessions s) tag = None"
  then show "fst (GetSeqNoForConvo tag (PutIntroFor tag i tm s)) = 1"
    by (simp add: GetSeqNoForConvo_def PutIntroFor_def find_or_insert_absent
                  map_of_map_entry Session_init_def)
next
  assume "map_of (m_Sessions s) tag = None"
  then show "fst (GetSeqNoForConvo tag (PutCachedSessionKeyFor tag k tm s)) = 1"
    by (simp add: GetSeqNoForConvo_def PutCachedSessionKeyFor_def find_or_insert_absent
                  map_of_map_entry Session_init_def)
qed

theorem GetSeqNoForConvo_increasing_witness:
  "map_of (m_Sessions (talking_endpoint 40)) 21 = Some (session_at 40)
   \<and> fst (GetSeqNoForConvo 21 (talking_endpoint 40)) = 41
   \<and> fst (GetSeqNoForConvo 21 (talking_endpoint 40)) \<noteq> - 1
   \<and> fst (GetSeqNoForConvo 21 (snd (GetSeqNoForConvo 21 (talking_endpoint 40)))) = 42
   \<and> map_of (m_Sessions (talking_endpoint (- 2))) 21 = Some (session_at (- 2))
   \<and> fst (GetSeqNoForConvo 21 (talking_endpoint (- 2))) = - 1
   \<and> fst (GetSeqNoForConvo 21 (snd (GetSeqNoForConvo 21 (talking_endpoint (- 2))))) = 0
   \<and> map_of (m_Sessions endpoint0) 21 = None
   \<and> fst (GetSeqNoForConvo 21 (PutSenderFor 21 other_info 1000 endpoint0)) = 1
   \<and> fst (GetSeqNoForConvo 21 (PutIntroFor 21 (intro_at 7 5) 1000 endpoint0)) = 1
   \<and> fst (GetSeqNoForConvo 21 (PutCachedSessionKeyFor 21 0 1000 endpoint0)) = 1"
  using GetSeqNoForConvo_increasing
          [where s = "talking_endpoint 40" and tag = 21 and e = "session_at 40"]
        GetSeqNoForConvo_increasing
          [where s = "talking_endpoint (- 2)" and tag = 21 and e = "session_at (- 2)"]
        GetSeqNoForConvo_increasing
          [where s = endpoint0 and tag = 21 and info = other_info and tm = 1000
             and i = "intro_at 7 5" and k = 0]
  by (simp add: talking_endpoint_def session_at_def Session_init_def endpoint0_def
                GetSeqNoForConvo_def)


text \<open>
  Claim C9 as stated fails where the counter wraps: with the stored counter at
  \<open>2^64 - 2\<close> the first call returns \<open>2^64 - 1\<close> and the second returns 0.
\<close>

theorem GetSeqNoForConvo_wraps:
  "map_of (m_Sessions (talking_endpoint (- 2))) 21 = Some (session_at (- 2))
   \<and> fst (GetSeqNoForConvo 21 (talking_endpoint (- 2))) = - 1
   \<and> fst (GetSeqNoForConvo 21 (snd (GetSeqNoForConvo 21 (talking_endpoint (- 2))))) = 0
   \<and> \<not> fst (GetSeqNoForConvo 21 (talking_endpoint (- 2)))
         < fst (GetSeqNoForConvo 21 (snd (GetSeqNoForConvo 21 (talking_endpoint (- 2)))))"
  by (simp add: talking_endpoint_def session_at_def Session_init_def endpoint0_def
                GetSeqNoForConvo_def)

text \<open>
  Claim C10, as the code has it. For a tag without a session entry \<^verbatim>\<open>GetSeqNoForConvo\<close>
  returns 0 and leaves the whole state, the session cache included, as it was; for a
  tag with an entry the result is not 0 unless the stored counter is \<open>2^64 - 1\<close>.
\<close>

theorem GetSeqNoForConvo_absent_tag:
  "(map_of (m_Sessions s) tag = None \<longrightarrow> GetSeqNoForConvo tag s = (0, s))
   \<and> (map_of (m_Sessions s) tag = Some e \<and> seqno e \<noteq> - 1 \<longrightarrow>
        fst (GetSeqNoForConvo tag s) \<noteq> 0)"
  by (auto simp: GetSeqNoForConvo_def dest: max_word_wrap)

theorem GetSeqNoForConvo_absent_tag_witness:
  "map_of (m_Sessions endpoint0) 21 = None
   \<and> GetSeqNoForConvo 21 endpoint0 = (0, endpoint0)
   \<and> map_of (m_Sessions (talking_endpoint 40)) 21 = Some (session_at 40)
   \<and> seqno (session_at 40) \<noteq> - 1
   \<and> fst (GetSeqNoForConvo 21 (talking_endpoint 40)) \<noteq> 0"
  using GetSeqNoForConvo_absent_tag [of endpoint0 21 "session_at 40"]
        GetSeqNoForConvo_absent_tag [of "talking_endpoint 40" 21 "session_at 40"]
  by (simp add: talking_endpoint_def session_at_def Session_init_def endpoint0_def)

text \<open>
  The last part of claim C10 as stated fails at the wrap: a tag with an entry whose
  counter is \<open>2^64 - 1\<close> gets 0.
\<close>

theorem GetSeqNoForConvo_zero_with_entry:
  "map_of (m_Sessions (talking_endpoint (- 1))) 21 = Some (session_at (- 1))
   \<and> fst (GetSeqNoForConvo 21 (talking_endpoint (- 1))) = 0"
  by (simp add: talking_endpoint_def session_at_def Session_init_def endpoint0_def
                GetSeqNoForConvo_def)

section \<open>Session cache: the scan for a service\<close>

text \<open>
  A run of the loop of \<^verbatim>\<open>GetConvoTagsForService\<close> that returns started at the end of
  the cache: by induction on the run, since every iteration continues with the same
  iterator.
\<close>

lemma GetConvoTagsForService_loop_returns_on_end:
  assumes ret: "GetConvoTagsForService_loop info itr st = Some r"
  shows "itr = []"
proof (rule GetConvoTagsForService_loop.raw_induct
         [where P = "\<lambda>info itr st r. itr = []", OF _ ret])
  fix f :: "ServiceInfo \<Rightarrow> (ConvoTag \<times> Session) list \<Rightarrow> bool \<times> ConvoTag set
              \<Rightarrow> (bool \<times> ConvoTag set) option"
  fix info' itr' st' r'
  assume IH: "\<And>i xs b y. f i xs b = Some y \<Longrightarrow> xs = []"
  assume body: "(case itr' of [] \<Rightarrow> Some st'
      | e # rest \<Rightarrow>
          if remote (snd e) = info'
          then f info' itr' (fst st' \<or> fst e \<notin> snd st', insert (fst e) (snd st'))
          else f info' itr' st') = Some r'"
  show "itr' = []"
  proof (cases itr')
    case Nil
    then show ?thesis .
  next
    case (Cons e rest)
    show ?thesis
    proof (cases "remote (snd e) = info'")
      case True
      with body Cons
      have "f info' itr' (fst st' \<or> fst e \<notin> snd st', insert (fst e) (snd st')) = Some r'"
        by simp
      then show ?thesis by (rule IH)
    next
      case False
      with body Cons have "f info' itr' st' = Some r'" by simp
      then show ?thesis by (rule IH)
    qed
  qed
qed

lemma GetConvoTagsForService_loop_never_returns:
  "itr \<noteq> [] \<Longrightarrow> GetConvoTagsForService_loop info itr st = None"
  using GetConvoTagsForService_loop_returns_on_end
  by (cases "GetConvoTagsForService_loop info itr st") auto

lemma GetConvoTagsForService_empty:
  "m_Sessions s = [] \<Longrightarrow> GetConvoTagsForService info tags s = Some (False, tags)"
  by (simp add: GetConvoTagsForService_def GetConvoTagsForService_loop.simps)

text \<open>
  Claim C2 says that \<^verbatim>\<open>GetConvoTagsForService\<close> terminates for every session cache.
  The code does not: for every cache that holds at least one session, whatever the
  service asked for and the output set, the call never returns.
\<close>

theorem GetConvoTagsForService_never_returns:
  "m_Sessions s \<noteq> [] \<Longrightarrow> GetConvoTagsForService info tags s = None"
  by (simp add: GetConvoTagsForService_def GetConvoTagsForService_loop_never_returns)

theorem GetConvoTagsForService_never_returns_witness:
  "m_Sessions (talking_endpoint 40) \<noteq> []
   \<and> GetConvoTagsForService other_info {} (talking_endpoint 40) = None
   \<and> GetConvoTagsForService self_info {} (talking_endpoint 40) = None"
  using GetConvoTagsForService_never_returns [of "talking_endpoint 40" other_info "{}"]
        GetConvoTagsForService_never_returns [of "talking_endpoint 40" self_info "{}"]
  by (simp add: talking_endpoint_def)


section \<open>When to publish\<close>

text \<open>
  Claim C3. \<^verbatim>\<open>ShouldPublishDescriptors(now)\<close> is true exactly when: if the current
  introset has an expired introduction, no publish is in flight and the retry interval
  has passed since the last attempt; otherwise, no publish is in flight and the publish
  interval has passed since the last publish. It is never true while
  \<^verbatim>\<open>m_CurrentPublishTX\<close> is not 0. The differences are those of unsigned 64-bit
  integers, as in the code.
\<close>

theorem ShouldPublishDescriptors_iff:
  "(HasExpiredIntros (m_IntroSet s) now \<longrightarrow>
      ShouldPublishDescriptors c now s =
        (m_CurrentPublishTX s = 0
         \<and> INTROSET_PUBLISH_RETRY_INTERVAL c \<le> now - m_LastPublishAttempt s))
   \<and> (\<not> HasExpiredIntros (m_IntroSet s) now \<longrightarrow>
      ShouldPublishDescriptors c now s =
        (m_CurrentPublishTX s = 0
         \<and> INTROSET_PUBLISH_INTERVAL c \<le> now - m_LastPublish s))
   \<and> (m_CurrentPublishTX s \<noteq> 0 \<longrightarrow> \<not> ShouldPublishDescriptors c now s)"
  by (simp add: ShouldPublishDescriptors_def)

theorem ShouldPublishDescriptors_iff_witness:
  "HasExpiredIntros
     (m_IntroSet (endpoint0\<lparr>m_IntroSet := introset_of self_info [intro_at 7 500] 0\<rparr>)) 70000
   \<and> ShouldPublishDescriptors intervals0 70000
        (endpoint0\<lparr>m_IntroSet := introset_of self_info [intro_at 7 500] 0\<rparr>)
   \<and> \<not> HasExpiredIntros (m_IntroSet endpoint0) 70000
   \<and> \<not> ShouldPublishDescriptors intervals0 70000 endpoint0
   \<and> m_CurrentPublishTX (endpoint0\<lparr>m_CurrentPublishTX := 5\<rparr>) \<noteq> 0
   \<and> \<not> ShouldPublishDescriptors intervals0 70000 (endpoint0\<lparr>m_CurrentPublishTX := 5\<rparr>)"
  using ShouldPublishDescriptors_iff
          [of "endpoint0\<lparr>m_IntroSet := introset_of self_info [intro_at 7 500] 0\<rparr>"
              70000 intervals0]
        ShouldPublishDescriptors_iff [of endpoint0 70000 intervals0]
        ShouldPublishDescriptors_iff [of "endpoint0\<lparr>m_CurrentPublishTX := 5\<rparr>" 70000 intervals0]
  by (simp add: endpoint0_def introset_of_def intro_at_def self_info_def intervals0_def
                HasExpiredIntros_def)

section \<open>Publish confirmations\<close>

text \<open>
  Introsets that verify and belong to somebody else are collected and the loop moves
  on.
\<close>

lemma HandleGotIntroMessage_loop_prefix:
  assumes "\<forall>y\<in>set pre. verify y \<and> A y \<noteq> m_Identity_pub s"
  shows "HandleGotIntroMessage_loop verify tm t (pre @ rest) acc s =
         HandleGotIntroMessage_loop verify tm t rest (acc \<union> set pre) s"
  using assms
proof (induction pre arbitrary: acc)
  case Nil
  show ?case by simp
next
  case (Cons y pre)
  from Cons.prems have y: "verify y" "m_Identity_pub s \<noteq> A y" by auto
  from Cons.prems have rest: "\<forall>y\<in>set pre. verify y \<and> A y \<noteq> m_Identity_pub s" by simp
  have "HandleGotIntroMessage_loop verify tm t ((y # pre) @ rest) acc s =
        HandleGotIntroMessage_loop verify tm t (pre @ rest) (insert y acc) s"
    using y by simp
  also have "\<dots> = HandleGotIntroMessage_loop verify tm t rest (insert y acc \<union> set pre) s"
    by (rule Cons.IH [OF rest])
  finally show ?case by simp
qed

text \<open>
  Claim C4, as the code has it. Let a \<^verbatim>\<open>GotIntroMessage\<close> carry the transaction id of
  the publish in flight, and let \<open>x\<close> be an introset of the endpoint's own identity
  in it such that every introset before \<open>x\<close> verifies and belongs to another
  identity. If the signature of \<open>x\<close> verifies, \<^verbatim>\<open>HandleGotIntroMessage\<close> returns true
  after \<^verbatim>\<open>IntroSetPublished\<close>, which sets \<^verbatim>\<open>m_CurrentPublishTX\<close> to 0 and records
  \<^verbatim>\<open>m_LastPublish\<close>; if it does not, the function returns false after
  \<^verbatim>\<open>IntroSetPublishFail\<close>, which sets \<^verbatim>\<open>m_CurrentPublishTX\<close> to 0 and leaves
  \<^verbatim>\<open>m_LastPublishAttempt\<close> as it was.
\<close>

theorem HandleGotIntroMessage_publish_confirmation:
  assumes "msg_T msg = m_CurrentPublishTX s"
    and "msg_I msg = pre @ x # post"
    and "A x = m_Identity_pub s"
    and "\<forall>y\<in>set pre. verify y \<and> A y \<noteq> m_Identity_pub s"
  shows "(verify x \<longrightarrow>
            HandleGotIntroMessage verify tm msg s = (True, IntroSetPublished tm s)
          \<and> m_CurrentPublishTX (IntroSetPublished tm s) = 0
          \<and> m_LastPublish (IntroSetPublished tm s) = tm)
       \<and> (\<not> verify x \<longrightarrow>
            HandleGotIntroMessage verify tm msg s = (False, IntroSetPublishFail s)
          \<and> m_CurrentPublishTX (IntroSetPublishFail s) = 0
          \<and> m_LastPublishAttempt (IntroSetPublishFail s) = m_LastPublishAttempt s)"
proof -
  have "HandleGotIntroMessage_loop verify tm (msg_T msg) (msg_I msg) {} s =
        HandleGotIntroMessage_loop verify tm (msg_T msg) (x # post) ({} \<union> set pre) s"
    unfolding assms(2) by (rule HandleGotIntroMessage_loop_prefix [OF assms(4)])
  also have "\<dots> = (if verify x then Inl (True, IntroSetPublished tm s)
                     else Inl (False, IntroSetPublishFail s))"
    using assms(1,3) by simp
  finally show ?thesis
    by (simp add: HandleGotIntroMessage_def IntroSetPublished_def IntroSetPublishFail_def)
qed

theorem HandleGotIntroMessage_publish_confirmation_witness:
  "HandleGotIntroMessage sig_ok 9000
      \<lparr>msg_T = 5, msg_I = [signed_introset other_info [1], signed_introset self_info [1]]\<rparr>
      publishing_endpoint
     = (True, publishing_endpoint\<lparr>m_CurrentPublishTX := 0, m_LastPublish := 9000\<rparr>)
   \<and> HandleGotIntroMessage sig_ok 9000
      \<lparr>msg_T = 5, msg_I = [signed_introset other_info [1], signed_introset self_info [0]]\<rparr>
      publishing_endpoint
     = (False, publishing_endpoint\<lparr>m_CurrentPublishTX := 0\<rparr>)"
  using HandleGotIntroMessage_publish_confirmation
          [of "\<lparr>msg_T = 5,
                msg_I = [signed_introset other_info [1], signed_introset self_info [1]]\<rparr>"
              publishing_endpoint "[signed_introset other_info [1]]"
              "signed_introset self_info [1]" "[]" sig_ok 9000]
        HandleGotIntroMessage_publish_confirmation
          [of "\<lparr>msg_T = 5,
                msg_I = [signed_introset other_info [1], signed_introset self_info [0]]\<rparr>"
              publishing_endpoint "[signed_introset other_info [1]]"
              "signed_introset self_info [0]" "[]" sig_ok 9000]
  by (simp add: publishing_endpoint_def endpoint0_def signed_introset_def sig_ok_def
                self_info_def other_info_def IntroSetPublished_def IntroSetPublishFail_def)

text \<open>
  Claim C4 as stated fails when an introset of another identity with a bad signature
  comes first: the function returns false at that introset. The message carries the
  transaction id in flight and the endpoint's own introset, with a good signature in
  the first message and a bad one in the second; neither \<^verbatim>\<open>IntroSetPublished\<close> nor
  \<^verbatim>\<open>IntroSetPublishFail\<close> runs, and \<^verbatim>\<open>m_CurrentPublishTX\<close> stays 5.
\<close>

theorem HandleGotIntroMessage_bad_introset_first:
  "msg_T \<lparr>msg_T = 5,
          msg_I = [signed_introset other_info [0], signed_introset self_info [1]]\<rparr>
     = m_CurrentPublishTX publishing_endpoint
   \<and> A (signed_introset self_info [1]) = m_Identity_pub publishing_endpoint
   \<and> sig_ok (signed_introset self_info [1])
   \<and> HandleGotIntroMessage sig_ok 9000
        \<lparr>msg_T = 5, msg_I = [signed_introset other_info [0], signed_introset self_info [1]]\<rparr>
        publishing_endpoint
      = (False, publishing_endpoint)
   \<and> m_CurrentPublishTX publishing_endpoint = 5
   \<and> A (signed_introset self_info [0]) = m_Identity_pub publishing_endpoint
   \<and> \<not> sig_ok (signed_introset self_info [0])
   \<and> HandleGotIntroMessage sig_ok 9000
        \<lparr>msg_T = 5, msg_I = [signed_introset other_info [0], signed_introset self_info [0]]\<rparr>
        publishing_endpoint
      = (False, publishing_endpoint)"
  by (simp add: publishing_endpoint_def endpoint0_def signed_introset_def sig_ok_def
                self_info_def other_info_def HandleGotIntroMessage_def)

section \<open>Expiry of pending lookups\<close>

lemma expire_pending_lookups_eq:
  "expire_pending_lookups T now xs evs =
     (filter (\<lambda>e. \<not> T (snd e) now) xs,
      evs @ map (\<lambda>e. HandleResponse (fst e) (snd e) {}) (filter (\<lambda>e. T (snd e) now) xs))"
  by (induction xs arbitrary: evs) simp_all

lemma responses_to_append:
  "responses_to k (xs @ ys) = responses_to k xs @ responses_to k ys"
  by (induction k xs rule: responses_to.induct) simp_all

lemma responses_to_expired:
  "responses_to k (map (\<lambda>e. HandleResponse (fst e) (snd e) {}) ys) =
     map (\<lambda>e. {}) (filter (\<lambda>e. fst e = k) ys)"
  by (induction ys) simp_all

lemma filter_key_distinct:
  assumes "distinct (map fst xs)" and "(k, l) \<in> set xs"
  shows "filter (\<lambda>e. fst e = k) (filter P xs) = (if P (k, l) then [(k, l)] else [])"
  using assms
proof (induction xs)
  case Nil
  then show ?case by simp
next
  case (Cons x xs)
  show ?case
  proof (cases "x = (k, l)")
    case True
    with Cons.prems(1) have "\<forall>e\<in>set xs. fst e \<noteq> k" by force
    then have "filter (\<lambda>e. fst e = k) (filter P xs) = []"
      by (simp add: filter_empty_conv)
    with True show ?thesis by simp
  next
    case False
    with Cons.prems have mem: "(k, l) \<in> set xs" and d: "distinct (map fst xs)" by auto
    from mem have "k \<in> fst ` set xs" by force
    with Cons.prems(1) have "fst x \<noteq> k" by auto
    with Cons.IH [OF d mem] show ?thesis by simp
  qed
qed

lemma map_of_filter_distinct:
  assumes "distinct (map fst xs)" and "(k, l) \<in> set xs"
  shows "map_of (filter P xs) k = (if P (k, l) then Some l else None)"
proof (cases "P (k, l)")
  case True
  with assms(2) have "(k, l) \<in> set (filter P xs)" by simp
  moreover from assms(1) have "distinct (map fst (filter P xs))" by (rule distinct_map_filter)
  ultimately show ?thesis using True by simp
next
  case False
  have "k \<notin> fst ` set (filter P xs)"
  proof
    assume "k \<in> fst ` set (filter P xs)"
    then obtain l' where m: "(k, l') \<in> set xs" and p: "P (k, l')" by auto
    from assms m have "l' = l" by (meson eq_key_imp_eq_value)
    with p False show False by simp
  qed
  then have "map_of (filter P xs) k = None" by (simp add: map_of_eq_None_iff)
  with False show ?thesis by simp
qed

text \<open>The publish step neither touches the pending lookups nor calls a handler.\<close>

lemma Tick_publish_pending:
  "m_PendingLookups (snd (Tick_publish c env now s)) = m_PendingLookups s"
  by (simp add: Tick_publish_def PublishIntroSet_def Let_def)

lemma Tick_publish_events:
  "\<exists>pe. events (snd (Tick_publish c env now s)) = events s @ pe \<and> responses_to k pe = []"
  by (simp add: Tick_publish_def PublishIntroSet_def Let_def)

text \<open>
  The publish step lets \<^verbatim>\<open>Tick\<close> go on whenever introductions can be gathered and the
  introset can be signed, and whenever no publish is due.
\<close>

lemma Tick_publish_continues:
  assumes "got_intros env" and "\<And>x. fst (sign_introset env x)"
  shows "fst (Tick_publish c env now s)"
  using assms by (simp add: Tick_publish_def Let_def)

lemma Tick_publish_not_due:
  assumes "m_CurrentPublishTX s \<noteq> 0"
    and "\<not> INTROSET_PUBLISH_RETRY_INTERVAL c \<le> now - m_LastPublishAttempt s"
  shows "Tick_publish c env now s = (True, s)"
  using assms by (simp add: Tick_publish_def ShouldPublishDescriptors_def)

text \<open>
  Claim C6, as the code has it. Whenever \<^verbatim>\<open>Endpoint::Tick(now)\<close> gets past its publish
  step, then at the end of its expiry blocks every pending lookup whose deadline is
  past has been removed from \<^verbatim>\<open>m_PendingLookups\<close> and its \<^verbatim>\<open>HandleResponse\<close> has been
  called exactly once, with the empty set, and every pending lookup whose deadline is
  not past is still in the table and its handler has not been called. The keys of the
  table are distinct, as those of a map are; the calls counted are the ones made since
  \<^verbatim>\<open>Tick\<close> was entered.
\<close>

theorem Tick_expires_pending_lookups:
  assumes run: "Tick_through_expiry c env IsTimedOut IsExpired now s = (True, s')"
    and dist: "distinct (map fst (m_PendingLookups s))"
    and mem: "(k, l) \<in> set (m_PendingLookups s)"
  shows "(IsTimedOut l now \<longrightarrow>
            map_of (m_PendingLookups s') k = None
          \<and> responses_to k (drop (length (events s)) (events s')) = [{}])
       \<and> (\<not> IsTimedOut l now \<longrightarrow>
            map_of (m_PendingLookups s') k = Some l
          \<and> responses_to k (drop (length (events s)) (events s')) = [])"
proof -
  define p where "p = snd (Tick_publish c env now s)"
  from run have s': "s' = Tick_expire_routers IsExpired now (Tick_expire_lookups IsTimedOut now p)"
    by (simp add: Tick_through_expiry_def Let_def p_def split: if_splits)
  have pend: "m_PendingLookups p = m_PendingLookups s"
    unfolding p_def by (rule Tick_publish_pending)
  obtain pe where pe: "events p = events s @ pe" "responses_to k pe = []"
    unfolding p_def using Tick_publish_events by blast
  have table: "m_PendingLookups s' = filter (\<lambda>e. \<not> IsTimedOut (snd e) now) (m_PendingLookups s)"
    by (simp add: s' Tick_expire_routers_def Tick_expire_lookups_def
                  expire_pending_lookups_eq pend)
  have evs: "events s' = events s @ pe @
               map (\<lambda>e. HandleResponse (fst e) (snd e) {})
                   (filter (\<lambda>e. IsTimedOut (snd e) now) (m_PendingLookups s))"
    by (simp add: s' Tick_expire_routers_def Tick_expire_lookups_def
                  expire_pending_lookups_eq pend pe(1))
  have "responses_to k (drop (length (events s)) (events s')) =
          map (\<lambda>e. {}) (filter (\<lambda>e. fst e = k)
                 (filter (\<lambda>e. IsTimedOut (snd e) now) (m_PendingLookups s)))"
    by (simp add: evs responses_to_append pe(2) responses_to_expired)
  also have "\<dots> = (if IsTimedOut l now then [{}] else [])"
    by (subst filter_key_distinct [OF dist mem]) simp
  finally have resp: "responses_to k (drop (length (events s)) (events s')) =
                (if IsTimedOut l now then [{}] else [])" .
  have look: "map_of (m_PendingLookups s') k = (if \<not> IsTimedOut l now then Some l else None)"
    by (simp add: table map_of_filter_distinct [OF dist mem])
  from resp look show ?thesis by simp
qed

theorem Tick_expires_pending_lookups_witness:
  "Tick_through_expiry intervals0 no_intros_env timed_out_after_5s router_expired_after_5s
        2000000 (waiting_endpoint\<lparr>m_CurrentPublishTX := 3, m_LastPublishAttempt := 1990000\<rparr>)
      = (True, waiting_endpoint
                 \<lparr>m_CurrentPublishTX := 3, m_LastPublishAttempt := 1990000,
                  m_PendingLookups := [(6, lookup_started 6 1999000)],
                  events := [HandleResponse 5 (lookup_started 5 1000) {}]\<rparr>)
   \<and> distinct (map fst (m_PendingLookups waiting_endpoint))
   \<and> timed_out_after_5s (lookup_started 5 1000) 2000000
   \<and> \<not> timed_out_after_5s (lookup_started 6 1999000) 2000000
   \<and> map_of [(6, lookup_started 6 1999000)] (5 :: 64 word) = None
   \<and> responses_to 5 [HandleResponse 5 (lookup_started 5 1000) {}] = [{}]
   \<and> map_of [(6, lookup_started 6 1999000)] (6 :: 64 word) = Some (lookup_started 6 1999000)
   \<and> responses_to 6 [HandleResponse 5 (lookup_started 5 1000) {}] = []"
proof -
  let ?s = "waiting_endpoint\<lparr>m_CurrentPublishTX := 3, m_LastPublishAttempt := 1990000\<rparr>"
  let ?s' = "waiting_endpoint
                 \<lparr>m_CurrentPublishTX := 3, m_LastPublishAttempt := 1990000,
                  m_PendingLookups := [(6, lookup_started 6 1999000)],
                  events := [HandleResponse 5 (lookup_started 5 1000) {}]\<rparr>"
  have run: "Tick_through_expiry intervals0 no_intros_env timed_out_after_5s
               router_expired_after_5s 2000000 ?s = (True, ?s')"
    by (simp add: waiting_endpoint_def endpoint0_def introset_of_def intervals0_def
                  timed_out_after_5s_def lookup_started_def
                  Tick_through_expiry_def Tick_publish_def
                  ShouldPublishDescriptors_def HasExpiredIntros_def
                  Tick_expire_lookups_def Tick_expire_routers_def)
  have dist: "distinct (map fst (m_PendingLookups ?s))"
    by (simp add: waiting_endpoint_def)
  have m5: "(5, lookup_started 5 1000) \<in> set (m_PendingLookups ?s)"
    by (simp add: waiting_endpoint_def)
  have m6: "(6, lookup_started 6 1999000) \<in> set (m_PendingLookups ?s)"
    by (simp add: waiting_endpoint_def)
  have t5: "timed_out_after_5s (lookup_started 5 1000) 2000000"
    by (simp add: timed_out_after_5s_def lookup_started_def)
  have t6: "\<not> timed_out_after_5s (lookup_started 6 1999000) 2000000"
    by (simp add: timed_out_after_5s_def lookup_started_def)
  from Tick_expires_pending_lookups [OF run dist m5]
       Tick_expires_pending_lookups [OF run dist m6] run dist t5 t6
  show ?thesis by (simp add: waiting_endpoint_def)
qed

text \<open>
  Claim C6 as stated fails when the publish step returns. Descriptors are due, no
  introduction can be gathered, and \<^verbatim>\<open>Tick\<close> returns at line 108 after asking for one
  more path: the lookup pending under key 5, whose deadline is past, is still in the
  table and its handler has not been called.
\<close>

theorem Tick_early_return_keeps_expired_lookup:
  "(5, lookup_started 5 1000) \<in> set (m_PendingLookups waiting_endpoint)
   \<and> timed_out_after_5s (lookup_started 5 1000) 2000000
   \<and> Tick_through_expiry intervals0 no_intros_env timed_out_after_5s router_expired_after_5s
        2000000 waiting_endpoint
      = (False, waiting_endpoint\<lparr>events := [ManualRebuild 1]\<rparr>)
   \<and> map_of (m_PendingLookups (waiting_endpoint\<lparr>events := [ManualRebuild 1]\<rparr>)) 5
      = Some (lookup_started 5 1000)
   \<and> responses_to 5 (events (waiting_endpoint\<lparr>events := [ManualRebuild 1]\<rparr>)) = []"
  by (simp add: waiting_endpoint_def endpoint0_def introset_of_def intervals0_def
                timed_out_after_5s_def lookup_started_def no_intros_env_def
                Tick_through_expiry_def Tick_publish_def
                ShouldPublishDescriptors_def HasExpiredIntros_def)

section \<open>Duplicate lookups\<close>

text \<open>
  Claim C7. When a path is established, no remote session for the address exists and
  a service lookup for it is already pending, \<^verbatim>\<open>EnsurePathToService\<close> returns false and
  leaves the endpoint as it was: the hook is not called (no event is added) and
  \<^verbatim>\<open>m_PendingServiceLookups\<close> is unchanged.
\<close>

theorem EnsurePathToService_duplicate_pending:
  assumes "has_path env"
    and "map_of (m_RemoteSessions s) remote_addr = None"
    and "map_of (m_PendingServiceLookups s) remote_addr = Some h"
  shows "EnsurePathToService env remote_addr hook timeoutMS s = Some (False, s)"
  using assms by (simp add: EnsurePathToService_def)

theorem EnsurePathToService_duplicate_pending_witness:
  "has_path env0
   \<and> map_of (m_RemoteSessions (endpoint0\<lparr>m_PendingServiceLookups := [(11, 1)]\<rparr>)) 11 = None
   \<and> map_of (m_PendingServiceLookups (endpoint0\<lparr>m_PendingServiceLookups := [(11, 1)]\<rparr>)) 11
       = Some 1
   \<and> EnsurePathToService env0 11 2 10000 (endpoint0\<lparr>m_PendingServiceLookups := [(11, 1)]\<rparr>)
       = Some (False, endpoint0\<lparr>m_PendingServiceLookups := [(11, 1)]\<rparr>)"
  using EnsurePathToService_duplicate_pending
          [of env0 "endpoint0\<lparr>m_PendingServiceLookups := [(11, 1)]\<rparr>" 11 1 2 10000]
  by (simp add: endpoint0_def env0_def)


section \<open>Outbound contexts: refreshing the introset\<close>

text \<open>What \<^verbatim>\<open>OutboundContext::Tick\<close> calls, for every context and time.\<close>

lemma OutboundContext_Tick_calls:
  "calls (snd (OutboundContext_Tick now c)) =
     calls c
     @ (if now \<le> expiresAt (selectedIntro c) \<or> expiresAt (selectedIntro c) - now < 30000
        then [UpdateIntroSet] else [])
     @ [EnsureRouterIsKnown (router (selectedIntro c))]"
  by (simp add: OutboundContext_Tick_def)

text \<open>
  Claim C1 says that \<^verbatim>\<open>Tick\<close> issues no \<^verbatim>\<open>UpdateIntroSet\<close> when the selected
  introduction expires more than 30 seconds after \<open>now\<close>. The code does: at time 1000,
  with no introduction of the current introset expired and the selected one expiring
  at 101000, neither expired nor within 30000 of expiry, \<^verbatim>\<open>Tick\<close> calls
  \<^verbatim>\<open>UpdateIntroSet\<close>, then \<^verbatim>\<open>EnsureRouterIsKnown\<close>, and returns false.
\<close>

theorem OutboundContext_Tick_updates_far_from_expiry:
  "\<not> HasExpiredIntros (currentIntroSet ctx_far) 1000
   \<and> \<not> expiresAt (selectedIntro ctx_far) \<le> 1000
   \<and> \<not> expiresAt (selectedIntro ctx_far) - 1000 < 30000
   \<and> OutboundContext_Tick 1000 ctx_far =
       (False, ctx_far\<lparr>calls := [UpdateIntroSet, EnsureRouterIsKnown 7]\<rparr>)"
  by (simp add: ctx_far_def introset_of_def intro_at_def HasExpiredIntros_def
                OutboundContext_Tick_def)

text \<open>
  In the other direction, a selected introduction that expired 1000 ago gets no
  \<^verbatim>\<open>UpdateIntroSet\<close>: the unsigned difference wraps around.
\<close>

lemma OutboundContext_Tick_skips_expired:
  "OutboundContext_Tick 102000 ctx_far =
     (False, ctx_far\<lparr>calls := [EnsureRouterIsKnown 7]\<rparr>)"
  by (simp add: ctx_far_def introset_of_def intro_at_def OutboundContext_Tick_def)

lemma OnIntroSetUpdate_step_mono:
  "lastSignedAt (currentIntroSet c)
     \<le> lastSignedAt (currentIntroSet (snd (OnIntroSetUpdate i c)))"
  by (auto simp: OnIntroSetUpdate_def IsNewerThan_def split: option.splits)

lemma OnIntroSetUpdate_fold_mono:
  "lastSignedAt (currentIntroSet c)
     \<le> lastSignedAt (currentIntroSet (foldl (\<lambda>c i. snd (OnIntroSetUpdate i c)) c us))"
proof (induction us arbitrary: c)
  case Nil
  show ?case by simp
next
  case (Cons u us)
  have "lastSignedAt (currentIntroSet c)
          \<le> lastSignedAt (currentIntroSet (snd (OnIntroSetUpdate u c)))"
    by (rule OnIntroSetUpdate_step_mono)
  also have "\<dots> \<le> lastSignedAt (currentIntroSet
                (foldl (\<lambda>c i. snd (OnIntroSetUpdate i c)) (snd (OnIntroSetUpdate u c)) us))"
    by (rule Cons.IH)
  finally show ?case by simp
qed

text \<open>
  Claim C5. \<^verbatim>\<open>OnIntroSetUpdate(i)\<close> leaves \<^verbatim>\<open>currentIntroSet\<close> unchanged when \<open>i\<close> is
  null or not strictly newer than \<^verbatim>\<open>currentIntroSet\<close> by its last-signed timestamp, and
  replaces it with \<open>*i\<close> when \<open>i\<close> is strictly newer; so over any sequence \<open>us\<close> of
  calls the last-signed timestamp of \<^verbatim>\<open>currentIntroSet\<close> never decreases.
\<close>

theorem OnIntroSetUpdate_monotone:
  "currentIntroSet (snd (OnIntroSetUpdate None c)) = currentIntroSet c
   \<and> (\<not> lastSignedAt (currentIntroSet c) < lastSignedAt i \<longrightarrow>
        currentIntroSet (snd (OnIntroSetUpdate (Some i) c)) = currentIntroSet c)
   \<and> (lastSignedAt (currentIntroSet c) < lastSignedAt i \<longrightarrow>
        currentIntroSet (snd (OnIntroSetUpdate (Some i) c)) = i)
   \<and> lastSignedAt (currentIntroSet c)
        \<le> lastSignedAt (currentIntroSet (foldl (\<lambda>c u. snd (OnIntroSetUpdate u c)) c us))"
  using OnIntroSetUpdate_fold_mono [of c us]
  by (simp add: OnIntroSetUpdate_def IsNewerThan_def)

theorem OnIntroSetUpdate_monotone_witness:
  "\<not> lastSignedAt (currentIntroSet ctx_far) < lastSignedAt (introset_of other_info [intro_at 8 5] 49)
   \<and> currentIntroSet (snd (OnIntroSetUpdate (Some (introset_of other_info [intro_at 8 5] 49)) ctx_far))
       = currentIntroSet ctx_far
   \<and> lastSignedAt (currentIntroSet ctx_far) < lastSignedAt (introset_of other_info [intro_at 8 5] 51)
   \<and> currentIntroSet (snd (OnIntroSetUpdate (Some (introset_of other_info [intro_at 8 5] 51)) ctx_far))
       = introset_of other_info [intro_at 8 5] 51"
  using OnIntroSetUpdate_monotone [of ctx_far "introset_of other_info [intro_at 8 5] 49" "[]"]
        OnIntroSetUpdate_monotone [of ctx_far "introset_of other_info [intro_at 8 5] 51" "[]"]
  by (simp add: ctx_far_def introset_of_def)

section \<open>Outbound contexts: the selected introduction\<close>

lemma ShiftIntroduction_loop_introset:
  "currentIntroSet (ShiftIntroduction_loop xs c) = currentIntroSet c"
  by (induction xs arbitrary: c) (simp_all add: Let_def)

lemma ShiftIntroduction_loop_choice:
  "selectedIntro (ShiftIntroduction_loop xs c) = selectedIntro c
   \<or> selectedIntro (ShiftIntroduction_loop xs c) \<in> set xs"
proof (induction xs arbitrary: c)
  case Nil
  show ?case by simp
next
  case (Cons i xs)
  let ?c1 = "c\<lparr>calls := calls c @ [EnsureRouterIsKnown (router (selectedIntro c))]\<rparr>"
  let ?c2 = "if expiresAt (selectedIntro ?c1) < expiresAt i
             then ?c1\<lparr>selectedIntro := i\<rparr> else ?c1"
  have step: "ShiftIntroduction_loop (i # xs) c = ShiftIntroduction_loop xs ?c2"
    by (simp add: Let_def)
  have sel: "selectedIntro ?c2 = selectedIntro c \<or> selectedIntro ?c2 = i" by simp
  from Cons.IH [of ?c2] sel show ?case unfolding step by auto
qed

lemma ShiftIntroduction_loop_latest:
  "expiresAt (selectedIntro c) \<le> expiresAt (selectedIntro (ShiftIntroduction_loop xs c))
   \<and> (\<forall>i\<in>set xs. expiresAt i \<le> expiresAt (selectedIntro (ShiftIntroduction_loop xs c)))"
proof (induction xs arbitrary: c)
  case Nil
  show ?case by simp
next
  case (Cons i xs)
  let ?c1 = "c\<lparr>calls := calls c @ [EnsureRouterIsKnown (router (selectedIntro c))]\<rparr>"
  let ?c2 = "if expiresAt (selectedIntro ?c1) < expiresAt i
             then ?c1\<lparr>selectedIntro := i\<rparr> else ?c1"
  have step: "ShiftIntroduction_loop (i # xs) c = ShiftIntroduction_loop xs ?c2"
    by (simp add: Let_def)
  have sel: "expiresAt (selectedIntro c) \<le> expiresAt (selectedIntro ?c2)"
            "expiresAt i \<le> expiresAt (selectedIntro ?c2)"
    by auto
  from Cons.IH [of ?c2] sel show ?case unfolding step by (auto intro: order_trans)
qed

lemma ShiftIntroduction_loop_member:
  assumes "\<exists>i\<in>set xs. expiresAt (selectedIntro c) < expiresAt i"
  shows "selectedIntro (ShiftIntroduction_loop xs c) \<in> set xs"
proof -
  from assms obtain i where i: "i \<in> set xs" "expiresAt (selectedIntro c) < expiresAt i"
    by blast
  from ShiftIntroduction_loop_latest [of c xs] i(1)
  have "expiresAt i \<le> expiresAt (selectedIntro (ShiftIntroduction_loop xs c))" by blast
  with i(2)
  have "expiresAt (selectedIntro c) < expiresAt (selectedIntro (ShiftIntroduction_loop xs c))"
    by (rule less_le_trans)
  then have "selectedIntro (ShiftIntroduction_loop xs c) \<noteq> selectedIntro c" by auto
  with ShiftIntroduction_loop_choice [of xs c] show ?thesis by blast
qed

lemma ShiftIntroduction_loop_unchanged:
  "\<forall>i\<in>set xs. \<not> expiresAt (selectedIntro c) < expiresAt i \<Longrightarrow>
   selectedIntro (ShiftIntroduction_loop xs c) = selectedIntro c"
proof (induction xs arbitrary: c)
  case Nil
  show ?case by simp
next
  case (Cons i xs)
  let ?c1 = "c\<lparr>calls := calls c @ [EnsureRouterIsKnown (router (selectedIntro c))]\<rparr>"
  from Cons.prems have no: "\<not> expiresAt (selectedIntro c) < expiresAt i"
    and rest: "\<forall>j\<in>set xs. \<not> expiresAt (selectedIntro ?c1) < expiresAt j" by simp_all
  from no have step: "ShiftIntroduction_loop (i # xs) c = ShiftIntroduction_loop xs ?c1"
    by (simp add: Let_def)
  from Cons.IH [OF rest] show ?case unfolding step by simp
qed

lemma ShiftIntroduction_loop_member_iff:
  "selectedIntro (ShiftIntroduction_loop xs c) \<in> set xs \<longleftrightarrow>
     selectedIntro c \<in> set xs \<or> (\<exists>i\<in>set xs. expiresAt (selectedIntro c) < expiresAt i)"
proof (cases "\<exists>i\<in>set xs. expiresAt (selectedIntro c) < expiresAt i")
  case True
  then have "selectedIntro (ShiftIntroduction_loop xs c) \<in> set xs"
    by (rule ShiftIntroduction_loop_member)
  with True show ?thesis by simp
next
  case False
  then have "\<forall>i\<in>set xs. \<not> expiresAt (selectedIntro c) < expiresAt i" by simp
  then have "selectedIntro (ShiftIntroduction_loop xs c) = selectedIntro c"
    by (rule ShiftIntroduction_loop_unchanged)
  with False show ?thesis by simp
qed

lemma ShiftIntroduction_aligned_iff:
  "selection_aligned (ShiftIntroduction c) \<longleftrightarrow>
     selection_aligned c
     \<or> (\<exists>i\<in>set (I (currentIntroSet c)). expiresAt (selectedIntro c) < expiresAt i)"
  using ShiftIntroduction_loop_member_iff [of "I (currentIntroSet c)" c]
  by (simp add: selection_aligned_def ShiftIntroduction_def Let_def ShiftIntroduction_loop_introset)

lemma OutboundContext_new_aligned_iff:
  "selection_aligned (OutboundContext_new cleared introset) \<longleftrightarrow>
     cleared \<in> set (I introset) \<or> (\<exists>i\<in>set (I introset). expiresAt cleared < expiresAt i)"
  using ShiftIntroduction_aligned_iff
          [of "\<lparr>currentIntroSet = introset, selectedIntro = cleared, sequenceNo = 0, calls = []\<rparr>"]
  by (simp add: OutboundContext_new_def selection_aligned_def)

lemma OnIntroSetUpdate_aligned_iff:
  "selection_aligned (snd (OnIntroSetUpdate u c)) \<longleftrightarrow>
     (case u of
        None \<Rightarrow> selection_aligned c
      | Some i \<Rightarrow> if lastSignedAt (currentIntroSet c) < lastSignedAt i
                  then selectedIntro c \<in> set (I i) else selection_aligned c)"
  by (simp add: OnIntroSetUpdate_def IsNewerThan_def selection_aligned_def split: option.splits)

lemma apply_call_aligned:
  "selection_aligned c \<Longrightarrow> retains_selection k c \<Longrightarrow> selection_aligned (apply_call k c)"
proof (cases k)
  case CallShiftIntroduction
  assume "selection_aligned c"
  with CallShiftIntroduction show ?thesis by (simp add: ShiftIntroduction_aligned_iff)
next
  case (CallOnIntroSetUpdate u)
  assume "selection_aligned c" "retains_selection k c"
  with CallOnIntroSetUpdate show ?thesis
    by (cases u) (auto simp: OnIntroSetUpdate_aligned_iff IsNewerThan_def split: if_splits)
qed

lemma apply_calls_aligned:
  "selection_aligned c \<Longrightarrow> retaining_calls ks c \<Longrightarrow> selection_aligned (apply_calls ks c)"
proof (induction ks arbitrary: c)
  case Nil
  then show ?case by simp
next
  case (Cons k ks)
  from Cons.prems have "selection_aligned (apply_call k c)" by (simp add: apply_call_aligned)
  moreover from Cons.prems have "retaining_calls ks (apply_call k c)" by simp
  ultimately show ?case using Cons.IH by simp
qed

text \<open>
  Claim C8, as the code has it. After \<^verbatim>\<open>ShiftIntroduction\<close>, \<^verbatim>\<open>selectedIntro\<close> is an
  element of \<^verbatim>\<open>currentIntroSet.I\<close> exactly when it was one before the call or some
  introduction of \<^verbatim>\<open>currentIntroSet.I\<close> expires strictly later than the one selected
  before, so \<^verbatim>\<open>ShiftIntroduction\<close> never loses membership; after the constructor, exactly
  when the introset contains the cleared introduction or one that expires strictly later
  than it. \<^verbatim>\<open>OnIntroSetUpdate\<close> never changes \<^verbatim>\<open>selectedIntro\<close>: after a null or rejected
  update membership is as before, after an accepted update it holds exactly when the
  new introset contains the selected introduction. Hence from a state in which
  \<^verbatim>\<open>selectedIntro\<close> is an element of \<^verbatim>\<open>currentIntroSet.I\<close>, it is one after every sequence
  of \<^verbatim>\<open>ShiftIntroduction\<close> and \<^verbatim>\<open>OnIntroSetUpdate\<close> calls in which each accepted update
  brings an introset that contains the introduction selected at that moment.
\<close>

theorem selectedIntro_member_preserved:
  "(selectedIntro (ShiftIntroduction c) \<in> set (I (currentIntroSet (ShiftIntroduction c))) \<longleftrightarrow>
      selectedIntro c \<in> set (I (currentIntroSet c))
      \<or> (\<exists>i\<in>set (I (currentIntroSet c)). expiresAt (selectedIntro c) < expiresAt i))
   \<and> (selectedIntro (OutboundContext_new cleared introset)
         \<in> set (I (currentIntroSet (OutboundContext_new cleared introset))) \<longleftrightarrow>
      cleared \<in> set (I introset) \<or> (\<exists>i\<in>set (I introset). expiresAt cleared < expiresAt i))
   \<and> selectedIntro (snd (OnIntroSetUpdate u c)) = selectedIntro c
   \<and> (selectedIntro (snd (OnIntroSetUpdate None c))
         \<in> set (I (currentIntroSet (snd (OnIntroSetUpdate None c)))) \<longleftrightarrow>
      selectedIntro c \<in> set (I (currentIntroSet c)))
   \<and> (selectedIntro (snd (OnIntroSetUpdate (Some x) c))
         \<in> set (I (currentIntroSet (snd (OnIntroSetUpdate (Some x) c)))) \<longleftrightarrow>
      (if lastSignedAt (currentIntroSet c) < lastSignedAt x
       then selectedIntro c \<in> set (I x)
       else selectedIntro c \<in> set (I (currentIntroSet c))))
   \<and> (selectedIntro c \<in> set (I (currentIntroSet c)) \<and> retaining_calls ks c \<longrightarrow>
        selectedIntro (apply_calls ks c) \<in> set (I (currentIntroSet (apply_calls ks c))))"
proof (intro conjI)
  show "selectedIntro (ShiftIntroduction c) \<in> set (I (currentIntroSet (ShiftIntroduction c))) \<longleftrightarrow>
      selectedIntro c \<in> set (I (currentIntroSet c))
      \<or> (\<exists>i\<in>set (I (currentIntroSet c)). expiresAt (selectedIntro c) < expiresAt i)"
    using ShiftIntroduction_aligned_iff [of c] by (simp add: selection_aligned_def)
  show "selectedIntro (OutboundContext_new cleared introset)
         \<in> set (I (currentIntroSet (OutboundContext_new cleared introset))) \<longleftrightarrow>
      cleared \<in> set (I introset) \<or> (\<exists>i\<in>set (I introset). expiresAt cleared < expiresAt i)"
    using OutboundContext_new_aligned_iff [of cleared introset] by (simp add: selection_aligned_def)
  show "selectedIntro (snd (OnIntroSetUpdate u c)) = selectedIntro c"
    by (simp add: OnIntroSetUpdate_def split: option.splits)
  show "selectedIntro (snd (OnIntroSetUpdate None c))
         \<in> set (I (currentIntroSet (snd (OnIntroSetUpdate None c)))) \<longleftrightarrow>
      selectedIntro c \<in> set (I (currentIntroSet c))"
    by (simp add: OnIntroSetUpdate_def)
  show "selectedIntro (snd (OnIntroSetUpdate (Some x) c))
         \<in> set (I (currentIntroSet (snd (OnIntroSetUpdate (Some x) c)))) \<longleftrightarrow>
      (if lastSignedAt (currentIntroSet c) < lastSignedAt x
       then selectedIntro c \<in> set (I x)
       else selectedIntro c \<in> set (I (currentIntroSet c)))"
    by (simp add: OnIntroSetUpdate_def IsNewerThan_def)
  show "selectedIntro c \<in> set (I (currentIntroSet c)) \<and> retaining_calls ks c \<longrightarrow>
        selectedIntro (apply_calls ks c) \<in> set (I (currentIntroSet (apply_calls ks c)))"
    using apply_calls_aligned [of c ks] by (simp add: selection_aligned_def)
qed


theorem selectedIntro_member_preserved_witness:
  "selectedIntro ctx_far \<in> set (I (currentIntroSet ctx_far))
   \<and> selectedIntro (ShiftIntroduction ctx_far) = intro_at 7 101000
   \<and> selectedIntro (ShiftIntroduction ctx_far)
        \<in> set (I (currentIntroSet (ShiftIntroduction ctx_far)))
   \<and> (\<exists>i\<in>set (I (introset_of other_info [intro_at 8 5, intro_at 7 40] 1)).
         expiresAt zero_intro < expiresAt i)
   \<and> selectedIntro
        (OutboundContext_new zero_intro (introset_of other_info [intro_at 8 5, intro_at 7 40] 1))
       = intro_at 7 40
   \<and> selectedIntro
        (OutboundContext_new zero_intro (introset_of other_info [intro_at 8 5, intro_at 7 40] 1))
       \<in> set (I (currentIntroSet
            (OutboundContext_new zero_intro
               (introset_of other_info [intro_at 8 5, intro_at 7 40] 1))))
   \<and> retaining_calls refresh_calls ctx_far
   \<and> currentIntroSet (apply_calls refresh_calls ctx_far)
       = introset_of other_info [intro_at 8 5, intro_at 7 101000] 60
   \<and> selectedIntro (apply_calls refresh_calls ctx_far) = intro_at 7 101000
   \<and> selectedIntro (apply_calls refresh_calls ctx_far)
        \<in> set (I (currentIntroSet (apply_calls refresh_calls ctx_far)))"
proof -
  have run: "retaining_calls refresh_calls ctx_far"
    by (simp add: refresh_calls_def ctx_far_def introset_of_def intro_at_def
                  ShiftIntroduction_def OnIntroSetUpdate_def IsNewerThan_def)
  have before: "selectedIntro ctx_far \<in> set (I (currentIntroSet ctx_far))"
    by (simp add: ctx_far_def introset_of_def)
  have final: "apply_calls refresh_calls ctx_far =
         ctx_far\<lparr>currentIntroSet := introset_of other_info [intro_at 8 5, intro_at 7 101000] 60,
                 calls := [EnsureRouterIsKnown 7, ManualRebuild 2,
                           EnsureRouterIsKnown 7, EnsureRouterIsKnown 7, ManualRebuild 2]\<rparr>"
    by (simp add: refresh_calls_def ctx_far_def introset_of_def intro_at_def
                  ShiftIntroduction_def OnIntroSetUpdate_def IsNewerThan_def)
  from selectedIntro_member_preserved
         [where c = ctx_far and cleared = zero_intro
            and introset = "introset_of other_info [intro_at 8 5, intro_at 7 40] 1"
            and u = None and x = "introset_of other_info [intro_at 8 5] 49"
            and ks = refresh_calls]
       run before final
  show ?thesis
    by (simp add: ctx_far_def introset_of_def intro_at_def zero_intro_def
                  ShiftIntroduction_def OutboundContext_new_def)
qed

text \<open>
  Claim C8 as stated fails after an update. A context is constructed from an introset
  whose introduction expires at 10, is given a newer introset whose only introduction
  expires at 5, and shifts: every introset involved is non-empty, and the selected
  introduction is still the one of the first introset, which the current one does not
  contain. The cleared introduction is the one with all fields zero.
\<close>

theorem selectedIntro_outside_updated_introset:
  "I (currentIntroSet
        (OutboundContext_new zero_intro (introset_of other_info [intro_at 7 10] 1))) \<noteq> []
   \<and> I (currentIntroSet (stale_ctx zero_intro)) = [intro_at 8 5]
   \<and> selectedIntro (stale_ctx zero_intro) = intro_at 7 10
   \<and> selectedIntro (stale_ctx zero_intro) \<notin> set (I (currentIntroSet (stale_ctx zero_intro)))"
  by (simp add: stale_ctx_def introset_of_def intro_at_def zero_intro_def ShiftIntroduction_def
                OutboundContext_new_def OnIntroSetUpdate_def IsNewerThan_def)

text \<open>
  The same holds whatever \<^verbatim>\<open>Clear\<close> leaves in the selection: the selected introduction of
  that context is never the single introduction of its current introset.
\<close>

lemma stale_ctx_any_cleared:
  "selectedIntro (stale_ctx cleared) \<notin> set (I (currentIntroSet (stale_ctx cleared)))"
proof (cases "expiresAt cleared < 10")
  case True
  then show ?thesis
    by (simp add: stale_ctx_def introset_of_def intro_at_def ShiftIntroduction_def
                  OutboundContext_new_def OnIntroSetUpdate_def IsNewerThan_def)
next
  case False
  then have "\<not> expiresAt cleared < 5" by (simp add: not_less word_le_nat_alt)
  with False show ?thesis
    by (auto simp: stale_ctx_def introset_of_def intro_at_def ShiftIntroduction_def
                   OutboundContext_new_def OnIntroSetUpdate_def IsNewerThan_def)
qed

end
